theory Spec2Isabelle
  imports Main "HOL-Library.Word"
begin

unbundle bit_operations_syntax

section \<open>Data model\<close>

text \<open>
  A Python \<open>bytes\<close> value is a list of octets; reading one element gives an unbounded
  Python integer in the range 0 to 255 (\<open>uint\<close> of the octet). Python integers are
  \<open>int\<close>.
\<close>

type_synonym byte = "8 word"
type_synonym bytes = "byte list"

text \<open>
  The exceptions the source can raise. \<open>ValueError\<close> and \<open>SystemError\<close> carry
  the message of the \<open>raise\<close> statement; \<open>StructError\<close> is \<open>struct.error\<close> (a
  value out of range for \<open>pack\<close>, a buffer of the wrong size for \<open>unpack\<close>);
  \<open>IndexError\<close> is an index out of range; \<open>TypeError\<close> is an operation on a value of
  the wrong type; \<open>USBTimeoutError\<close> is a read with nothing to return.
\<close>

datatype error =
    ValueError string
  | SystemError string
  | StructError
  | IndexError
  | TypeError
  | USBTimeoutError

definition err_bind :: "error + 'a \<Rightarrow> ('a \<Rightarrow> error + 'b) \<Rightarrow> error + 'b" where
  "err_bind m f = (case m of Inl e \<Rightarrow> Inl e | Inr x \<Rightarrow> f x)"

subsection \<open>Python primitives\<close>

text \<open>\<open>len(xs)\<close>.\<close>

definition len :: "'a list \<Rightarrow> int" where
  "len xs = int (length xs)"

text \<open>\<open>sum(payload)\<close> on bytes: the sum of the octets as unbounded integers.\<close>

definition py_sum :: "bytes \<Rightarrow> int" where
  "py_sum payload = sum_list (map uint payload)"

text \<open>\<open>xs[i]\<close> on a sequence: an index from 0 up to the length reads from the
  front, a negative index down to minus the length reads from the end, and any other index
  raises IndexError.\<close>

definition list_item :: "'a list \<Rightarrow> int \<Rightarrow> error + 'a" where
  "list_item xs i =
     (if 0 \<le> i \<and> i < len xs then Inr (xs ! nat i)
      else if i < 0 \<and> - len xs \<le> i then Inr (xs ! nat (len xs + i))
      else Inl IndexError)"

text \<open>\<open>payload[i]\<close> on bytes: the element is read as an integer.\<close>

definition item :: "bytes \<Rightarrow> int \<Rightarrow> error + int" where
  "item payload i = err_bind (list_item payload i) (\<lambda>b. Inr (uint b))"

text \<open>\<open>for i in n\<close> with \<open>n\<close> an integer: an integer is not iterable, so asking for
  its elements raises TypeError whatever its value.\<close>

definition iter_int :: "int \<Rightarrow> error + int list" where
  "iter_int n = Inl TypeError"

text \<open>\<open>xs[i:j]\<close>: both bounds are clamped to the sequence, a negative bound counts
  from the end, and an empty range gives the empty sequence.\<close>

definition py_slice :: "'a list \<Rightarrow> int \<Rightarrow> int \<Rightarrow> 'a list" where
  "py_slice xs i j =
     (let n = len xs;
          a = (if i < 0 then max (n + i) 0 else min i n);
          b = (if j < 0 then max (n + j) 0 else min j n)
      in take (nat (b - a)) (drop (nat a) xs))"

text \<open>\<open>range(0, stop, step)\<close> for a positive step.\<close>

definition range_step :: "int \<Rightarrow> int \<Rightarrow> int list" where
  "range_step stop step = map (\<lambda>k. int k * step) [0..<nat ((stop + step - 1) div step)]"

text \<open>
  \<open>struct.pack\<close> with the formats \<open><B\<close>, \<open><H\<close> and \<open><I\<close>: an unsigned integer of
  1, 2 or 4 bytes, little-endian; a value out of the format's range raises
  \<open>struct.error\<close>.
\<close>

definition pack_B :: "int \<Rightarrow> error + bytes" where
  "pack_B v = (if 0 \<le> v \<and> v \<le> 0xff then Inr [word_of_int v] else Inl StructError)"

definition pack_H :: "int \<Rightarrow> error + bytes" where
  "pack_H v =
     (if 0 \<le> v \<and> v \<le> 0xffff
      then Inr [word_of_int (v mod 256), word_of_int (v div 256)]
      else Inl StructError)"

definition pack_I :: "int \<Rightarrow> error + bytes" where
  "pack_I v =
     (if 0 \<le> v \<and> v \<le> 0xffffffff
      then Inr [word_of_int (v mod 256), word_of_int (v div 256 mod 256),
                word_of_int (v div 65536 mod 256), word_of_int (v div 16777216)]
      else Inl StructError)"

text \<open>
  \<open>struct.unpack\<close> with the formats \<open><H\<close> and \<open><I\<close>: the buffer must have exactly
  the format's size, else \<open>struct.error\<close>; the result is a tuple of one integer,
  modelled as a list.
\<close>

definition unpack_H :: "bytes \<Rightarrow> error + int list" where
  "unpack_H buffer =
     (case buffer of
        [b0, b1] \<Rightarrow> Inr [uint b0 + 256 * uint b1]
      | _ \<Rightarrow> Inl StructError)"

definition unpack_I :: "bytes \<Rightarrow> error + int list" where
  "unpack_I buffer =
     (case buffer of
        [b0, b1, b2, b3] \<Rightarrow>
          Inr [uint b0 + 256 * uint b1 + 65536 * uint b2 + 16777216 * uint b3]
      | _ \<Rightarrow> Inl StructError)"

text \<open>\<open>t[0]\<close> on the tuple that \<open>unpack\<close> returns.\<close>

definition tuple_item0 :: "int list \<Rightarrow> error + int" where
  "tuple_item0 t = (case t of [] \<Rightarrow> Inl IndexError | v # _ \<Rightarrow> Inr v)"

subsection \<open>Constants\<close>

definition FLAGS_MESSAGE_PROTOCOL :: int where
  "FLAGS_MESSAGE_PROTOCOL = 0xa0"

definition COMMAND_WRITE_SENSOR_REGISTER :: int where
  "COMMAND_WRITE_SENSOR_REGISTER = 0x80"

definition COMMAND_READ_SENSOR_REGISTER :: int where
  "COMMAND_READ_SENSOR_REGISTER = 0x82"

definition COMMAND_ACK :: int where
  "COMMAND_ACK = 0xb0"

definition COMMAND_PRESET_PSK_WRITE_R :: int where
  "COMMAND_PRESET_PSK_WRITE_R = 0xe0"

definition COMMAND_PRESET_PSK_READ_R :: int where
  "COMMAND_PRESET_PSK_READ_R = 0xe4"

section \<open>Command identifiers\<close>

text \<open>\<open>cmd0 << 4 | cmd1 << 1\<close>: the shifts bind tighter than the bitwise or.\<close>

definition encode_command :: "int \<Rightarrow> int \<Rightarrow> int" where
  "encode_command cmd0 cmd1 = push_bit 4 cmd0 OR push_bit 1 cmd1"

text \<open>
  \<open>command & 0x1\<close> is tested for truth (non-zero); the result is
  \<open>(command >> 4 & 0xf, command >> 1 & 0x7)\<close>, the shift binding tighter than the
  bitwise and.
\<close>

definition decode_command :: "int \<Rightarrow> error + int \<times> int" where
  "decode_command command =
     (if command AND 0x1 \<noteq> 0 then Inl (ValueError ''Invalid command'')
      else Inr (drop_bit 4 command AND 0xf, drop_bit 1 command AND 0x7))"

section \<open>Message pack\<close>

definition encode_message_pack :: "bytes \<Rightarrow> int \<Rightarrow> int option \<Rightarrow> error + bytes" where
  "encode_message_pack data flags length_arg =
     (let length0 = (case length_arg of None \<Rightarrow> len data | Some l \<Rightarrow> l);
          payload0 = []
      in err_bind (pack_B flags) (\<lambda>f.
         let payload1 = payload0 @ f
         in err_bind (pack_H length0) (\<lambda>h.
            let payload2 = payload1 @ h
            in err_bind (pack_B (py_sum payload2 AND 0xff)) (\<lambda>c.
               let payload3 = payload2 @ c;
                   payload4 = payload3 @ data
               in Inr payload4))))"

definition decode_message_pack :: "bytes \<Rightarrow> error + bytes \<times> int \<times> int" where
  "decode_message_pack payload =
     err_bind (unpack_H (py_slice payload 1 3)) (\<lambda>t.
     err_bind (tuple_item0 t) (\<lambda>length0.
     err_bind (item payload 3) (\<lambda>p3.
     if py_sum (py_slice payload 0 3) AND 0xff \<noteq> p3
     then Inl (ValueError ''Invalid payload'')
     else err_bind (item payload 0) (\<lambda>p0.
          Inr (py_slice payload 4 (4 + length0), p0, length0)))))"

definition check_message_pack :: "bytes \<Rightarrow> int \<Rightarrow> error + bytes" where
  "check_message_pack payload flags =
     err_bind (decode_message_pack payload) (\<lambda>(data, flags', length0).
     if flags' \<noteq> flags \<or> len data < length0
     then Inl (ValueError ''Invalid message pack'')
     else Inr data)"

section \<open>Message protocol\<close>

text \<open>
  The trailer is \<open>0xaa - sum(payload) & 0xff if checksum else 0x88\<close>: the subtraction
  binds tighter than the bitwise and, which binds tighter than the conditional.
\<close>

definition encode_message_protocol ::
  "bytes \<Rightarrow> int \<Rightarrow> int option \<Rightarrow> bool \<Rightarrow> error + bytes" where
  "encode_message_protocol data command length_arg checksum =
     (let length0 = (case length_arg of None \<Rightarrow> len data | Some l \<Rightarrow> l);
          payload0 = []
      in err_bind (pack_B command) (\<lambda>c.
         let payload1 = payload0 @ c
         in err_bind (pack_H (length0 + 1)) (\<lambda>h.
            let payload2 = payload1 @ h;
                payload3 = payload2 @ data
            in err_bind (pack_B (if checksum then (0xaa - py_sum payload3) AND 0xff else 0x88))
                 (\<lambda>t. let payload4 = payload3 @ t in Inr payload4))))"

definition decode_message_protocol :: "bytes \<Rightarrow> bool \<Rightarrow> error + bytes \<times> int \<times> int" where
  "decode_message_protocol payload checksum =
     err_bind (unpack_H (py_slice payload 1 3)) (\<lambda>t.
     err_bind (tuple_item0 t) (\<lambda>length0.
     err_bind (item payload (2 + length0)) (\<lambda>trailer.
     if (if checksum
         then trailer \<noteq> (0xaa - py_sum (py_slice payload 0 (2 + length0))) AND 0xff
         else trailer \<noteq> 0x88)
     then Inl (ValueError ''Invalid payload'')
     else err_bind (item payload 0) (\<lambda>p0.
          Inr (py_slice payload 3 (2 + length0), p0, length0 - 1)))))"

definition check_message_protocol :: "bytes \<Rightarrow> int \<Rightarrow> bool \<Rightarrow> error + bytes" where
  "check_message_protocol payload command checksum =
     err_bind (decode_message_protocol payload checksum) (\<lambda>(data, command', length0).
     if command' \<noteq> command \<or> len data < length0
     then Inl (ValueError ''Invalid message protocol'')
     else Inr data)"

section \<open>Acknowledgements\<close>

text \<open>\<open>not payload[1] & 0x1\<close>: the ack is refused when the bit is clear.\<close>

definition decode_ack :: "bytes \<Rightarrow> error + int \<times> bool" where
  "decode_ack payload =
     err_bind (item payload 1) (\<lambda>p1.
     if p1 AND 0x1 = 0 then Inl (ValueError ''Invalid payload'')
     else err_bind (item payload 0) (\<lambda>p0.
          err_bind (item payload 1) (\<lambda>p1'.
          Inr (p0, p1' AND 0x2 = 0x2))))"

definition check_ack :: "bytes \<Rightarrow> int \<Rightarrow> error + bool" where
  "check_ack payload command =
     err_bind (decode_ack payload) (\<lambda>(command', has_no_config).
     if command' \<noteq> command then Inl (ValueError ''Invalid ack'')
     else Inr has_no_config)"

section \<open>Binary sub-codecs\<close>

text \<open>
  The body of the loop of \<open>decode_image\<close>: four \<open>append\<close> calls on the image, each
  reading the chunk by index.
\<close>

definition decode_image_body :: "bytes \<Rightarrow> int list \<Rightarrow> error + int list" where
  "decode_image_body chunk image0 =
     err_bind (item chunk 0) (\<lambda>c0.
     err_bind (item chunk 1) (\<lambda>c1.
     let image1 = image0 @ [push_bit 8 (c0 AND 0xf) + c1]
     in err_bind (item chunk 3) (\<lambda>c3.
        err_bind (item chunk 0) (\<lambda>c0'.
        let image2 = image1 @ [push_bit 4 c3 + drop_bit 4 c0']
        in err_bind (item chunk 5) (\<lambda>c5.
           err_bind (item chunk 2) (\<lambda>c2.
           let image3 = image2 @ [push_bit 8 (c5 AND 0xf) + c2]
           in err_bind (item chunk 4) (\<lambda>c4.
              err_bind (item chunk 5) (\<lambda>c5'.
              let image4 = image3 @ [push_bit 4 c4 + drop_bit 4 c5']
              in Inr image4))))))))"

text \<open>
  The four values that the body appends to the image, for a chunk of six bytes; the loop
  invariant is stated with it (\<open>decode_image_body_six\<close> relates the two).
\<close>

definition chunk_samples :: "bytes \<Rightarrow> int list" where
  "chunk_samples chunk =
     [push_bit 8 (uint (chunk ! 0) AND 0xf) + uint (chunk ! 1),
      push_bit 4 (uint (chunk ! 3)) + drop_bit 4 (uint (chunk ! 0)),
      push_bit 8 (uint (chunk ! 5) AND 0xf) + uint (chunk ! 2),
      push_bit 4 (uint (chunk ! 4)) + drop_bit 4 (uint (chunk ! 5))]"

text \<open>The loop \<open>for i in range(0, len(payload), 6)\<close>, over the list of its indices.\<close>

fun decode_image_loop :: "int list \<Rightarrow> bytes \<Rightarrow> int list \<Rightarrow> error + int list" where
  "decode_image_loop [] payload image0 = Inr image0"
| "decode_image_loop (i # rest) payload image0 =
     (let chunk = py_slice payload i (i + 6)
      in err_bind (decode_image_body chunk image0) (\<lambda>image0'.
         decode_image_loop rest payload image0'))"

definition decode_image :: "bytes \<Rightarrow> error + int list" where
  "decode_image payload = decode_image_loop (range_step (len payload) 6) payload []"

text \<open>
  \<open>decode_mcu_state\<close> builds its tuple left to right. The seventh component is the
  value of \<open>decode("<H", payload[10:11])\<close> itself, the tuple that \<open>unpack\<close> returns.
\<close>

definition decode_mcu_state ::
  "bytes \<Rightarrow> error + int \<times> bool \<times> bool \<times> bool \<times> int \<times> int \<times> int list \<times> int \<times> int" where
  "decode_mcu_state payload =
     err_bind (item payload 0) (\<lambda>version.
     err_bind (item payload 1) (\<lambda>s0.
     err_bind (item payload 1) (\<lambda>s1.
     err_bind (item payload 1) (\<lambda>s2.
     err_bind (item payload 2) (\<lambda>p2.
     err_bind (item payload 9) (\<lambda>p9.
     err_bind (unpack_H (py_slice payload 10 11)) (\<lambda>wake_up_to_pov_time.
     err_bind (item payload 12) (\<lambda>p12.
     err_bind (item payload 13) (\<lambda>p13.
     Inr (version, s0 AND 0x1 = 0x1, s1 AND 0x2 = 0x2, s2 AND 0x4 = 0x4,
          drop_bit 4 p2, p9, wake_up_to_pov_time, p12, p13))))))))))"

section \<open>The device\<close>

text \<open>
  The USB device behind \<open>self.device\<close> is an external collaborator. Its state is what the
  engine can observe of it: \<open>rx\<close> holds the byte strings that the successive calls of
  \<open>self.device.read\<close> will return, \<open>tx\<close> the chunks that \<open>self.device.write\<close> has
  received so far. A read when \<open>rx\<close> is empty times out.
\<close>

record device =
  rx :: "bytes list"
  tx :: "bytes list"

type_synonym 'a io = "device \<Rightarrow> (error + 'a) \<times> device"

definition io_bind :: "'a io \<Rightarrow> ('a \<Rightarrow> 'b io) \<Rightarrow> 'b io" where
  "io_bind m f dev =
     (case m dev of
        (Inl e, dev') \<Rightarrow> (Inl e, dev')
      | (Inr x, dev') \<Rightarrow> f x dev')"

definition io_of :: "error + 'a \<Rightarrow> 'a io" where
  "io_of r dev = (r, dev)"

text \<open>
  \<open>Device.write\<close>: the payload is padded with zero bytes to a multiple of \<open>0x40\<close> and
  written in chunks of \<open>0x40\<close> bytes, one for each index of
  \<open>range(0, length, 0x40)\<close>.
\<close>

definition Device_write :: "bytes \<Rightarrow> unit io" where
  "Device_write payload dev =
     (let length0 = len payload;
          payload' = (if length0 mod 0x40 \<noteq> 0
                      then payload @ replicate (nat (0x40 - length0 mod 0x40)) 0x00
                      else payload)
      in (Inr (),
          dev\<lparr>tx := tx dev @
             map (\<lambda>i. py_slice payload' i (i + 0x40)) (range_step length0 0x40)\<rparr>))"

definition Device_read :: "bytes io" where
  "Device_read dev =
     (case rx dev of
        [] \<Rightarrow> (Inl USBTimeoutError, dev)
      | message # rest \<Rightarrow> (Inr message, dev\<lparr>rx := rest\<rparr>))"

section \<open>Command engine\<close>

text \<open>
  Every method of \<open>Device\<close> repeats three fragments, named here once.
  \<open>send_command\<close> is
  \<open>self.write(encode_message_pack(encode_message_protocol(message, command)))\<close>;
  \<open>read_ack\<close> is
  \<open>check_ack(check_message_protocol(check_message_pack(self.read()), COMMAND_ACK), command)\<close>;
  \<open>read_reply\<close> is
  \<open>check_message_protocol(check_message_pack(self.read()), command)\<close>.
  The defaults of the source are written out: flags \<open>FLAGS_MESSAGE_PROTOCOL\<close>, no explicit
  length, checksum enabled.
\<close>

definition send_command :: "bytes \<Rightarrow> int \<Rightarrow> unit io" where
  "send_command message command =
     io_bind (io_of (encode_message_protocol message command None True)) (\<lambda>inner.
     io_bind (io_of (encode_message_pack inner FLAGS_MESSAGE_PROTOCOL None)) (\<lambda>outer.
     Device_write outer))"

definition read_ack :: "int \<Rightarrow> bool io" where
  "read_ack command =
     io_bind Device_read (\<lambda>raw.
     io_bind (io_of (check_message_pack raw FLAGS_MESSAGE_PROTOCOL)) (\<lambda>inner.
     io_bind (io_of (check_message_protocol inner COMMAND_ACK True)) (\<lambda>ack.
     io_of (check_ack ack command))))"

definition read_reply :: "int \<Rightarrow> bytes io" where
  "read_reply command =
     io_bind Device_read (\<lambda>raw.
     io_bind (io_of (check_message_pack raw FLAGS_MESSAGE_PROTOCOL)) (\<lambda>inner.
     io_of (check_message_protocol inner command True)))"

text \<open>
  The arguments of the sensor register methods are \<open>Union[int, List[int]]\<close> and
  \<open>Union[bytes, List[bytes]]\<close>; \<open>isinstance\<close> tells the alternatives apart.
\<close>

datatype address_arg = AddressInt int | AddressList "int list"

datatype value_arg = ValueBytes bytes | ValueList "bytes list"

text \<open>The body of the batch loop of \<open>write_sensor_register\<close>, over the values that the
  iteration yields.\<close>

fun write_sensor_register_loop ::
  "int list \<Rightarrow> int list \<Rightarrow> bytes list \<Rightarrow> bytes \<Rightarrow> error + bytes" where
  "write_sensor_register_loop [] address value message = Inr message"
| "write_sensor_register_loop (i # rest) address value message =
     err_bind (list_item value i) (\<lambda>v.
     if len v \<noteq> 2 then Inl (ValueError ''Invalid value'')
     else err_bind (list_item address i) (\<lambda>a.
          err_bind (pack_H a) (\<lambda>h.
          let message1 = message @ h
          in err_bind (list_item value i) (\<lambda>v'.
             let message2 = message1 @ v'
             in write_sensor_register_loop rest address value message2))))"

text \<open>The request of \<open>write_sensor_register\<close>. In batch mode the loop is
  \<open>for i in length\<close>, with \<open>length = len(address)\<close> an integer.\<close>

fun write_sensor_register_message :: "address_arg \<Rightarrow> value_arg \<Rightarrow> error + bytes" where
  "write_sensor_register_message (AddressInt address) (ValueBytes value) =
     err_bind (pack_H address) (\<lambda>h. Inr ([0x00] @ h @ value))"
| "write_sensor_register_message (AddressInt address) (ValueList value) =
     Inl (ValueError ''Invalid value'')"
| "write_sensor_register_message (AddressList address) (ValueBytes value) =
     Inl (ValueError ''Invalid value'')"
| "write_sensor_register_message (AddressList address) (ValueList value) =
     (let length0 = len address
      in if len value \<noteq> length0 then Inl (ValueError ''Invalid value'')
         else let message0 = [];
                  message1 = message0 @ [0x01]
              in err_bind (iter_int length0) (\<lambda>indices.
                 write_sensor_register_loop indices address value message1))"

definition write_sensor_register :: "address_arg \<Rightarrow> value_arg \<Rightarrow> unit io" where
  "write_sensor_register address value =
     io_bind (io_of (write_sensor_register_message address value)) (\<lambda>message.
     io_bind (send_command message COMMAND_WRITE_SENSOR_REGISTER) (\<lambda>_.
     io_bind (read_ack COMMAND_WRITE_SENSOR_REGISTER) (\<lambda>_.
     io_of (Inr ()))))"

text \<open>The batch loop of \<open>read_sensor_register\<close>:
  \<open>for value in address: message += encode("<H", value)\<close>.\<close>

fun read_sensor_register_loop :: "int list \<Rightarrow> bytes \<Rightarrow> error + bytes" where
  "read_sensor_register_loop [] message = Inr message"
| "read_sensor_register_loop (value # rest) message =
     err_bind (pack_H value) (\<lambda>h. read_sensor_register_loop rest (message @ h))"

fun read_sensor_register_message :: "address_arg \<Rightarrow> int \<Rightarrow> error + bytes" where
  "read_sensor_register_message (AddressInt address) length0 =
     err_bind (pack_H address) (\<lambda>h.
     err_bind (pack_B length0) (\<lambda>l. Inr ([0x00] @ h @ l)))"
| "read_sensor_register_message (AddressList address) length0 =
     (if length0 \<noteq> 2 then Inl (ValueError ''Invalid length'')
      else let message0 = [];
               message1 = message0 @ [0x01]
           in err_bind (read_sensor_register_loop address message1) (\<lambda>message2.
              err_bind (pack_B length0) (\<lambda>l. Inr (message2 @ l))))"

text \<open>What \<open>read_sensor_register\<close> does with the reply. In batch mode the length it
  checks and cuts by is \<open>len(message) - 1\<close>.\<close>

fun read_sensor_register_result :: "address_arg \<Rightarrow> int \<Rightarrow> bytes \<Rightarrow> error + value_arg" where
  "read_sensor_register_result (AddressInt address) length0 message =
     (if len message \<noteq> length0 then Inl (SystemError ''Invalid response length'')
      else Inr (ValueBytes message))"
| "read_sensor_register_result (AddressList address) length0 message =
     (let length1 = len message - 1
      in if length1 \<noteq> len address * 2 then Inl (SystemError ''Invalid response length'')
         else Inr (ValueList (map (\<lambda>i. py_slice message i (i + 2)) (range_step length1 2))))"

definition read_sensor_register :: "address_arg \<Rightarrow> int \<Rightarrow> value_arg io" where
  "read_sensor_register address length0 =
     io_bind (io_of (read_sensor_register_message address length0)) (\<lambda>message.
     io_bind (send_command message COMMAND_READ_SENSOR_REGISTER) (\<lambda>_.
     io_bind (read_ack COMMAND_READ_SENSOR_REGISTER) (\<lambda>_.
     io_bind (read_reply COMMAND_READ_SENSOR_REGISTER) (\<lambda>reply.
     io_of (read_sensor_register_result address length0 reply)))))"

definition preset_psk_write_r :: "int \<Rightarrow> int \<Rightarrow> bytes \<Rightarrow> unit io" where
  "preset_psk_write_r address length0 data =
     io_bind (io_of (err_bind (pack_I address) (\<lambda>a.
                     err_bind (pack_I length0) (\<lambda>l. Inr (a @ l @ data))))) (\<lambda>request.
     io_bind (send_command request COMMAND_PRESET_PSK_WRITE_R) (\<lambda>_.
     io_bind (read_ack COMMAND_PRESET_PSK_WRITE_R) (\<lambda>_.
     io_bind (read_reply COMMAND_PRESET_PSK_WRITE_R) (\<lambda>message.
     io_of (if len message > 2 then Inl (SystemError ''Invalid response length'')
            else err_bind (item message 0) (\<lambda>m0.
                 if m0 \<noteq> 0x00 then Inl (SystemError ''Invalid response'')
                 else Inr ()))))))"

text \<open>The test \<open>message[0] != 0x00 or decode("<I", message[1:5])[0] != address\<close>
  evaluates its second operand only when the first is false.\<close>

definition preset_psk_read_r :: "int \<Rightarrow> int \<Rightarrow> bytes io" where
  "preset_psk_read_r address length0 =
     io_bind (io_of (err_bind (pack_I address) (\<lambda>a.
                     err_bind (pack_I length0) (\<lambda>l. Inr (a @ l))))) (\<lambda>request.
     io_bind (send_command request COMMAND_PRESET_PSK_READ_R) (\<lambda>_.
     io_bind (read_ack COMMAND_PRESET_PSK_READ_R) (\<lambda>_.
     io_bind (read_reply COMMAND_PRESET_PSK_READ_R) (\<lambda>message.
     io_of (let length1 = len message
            in if length1 < 9 then Inl (SystemError ''Invalid response length'')
               else err_bind (unpack_I (py_slice message 5 9)) (\<lambda>t.
                    err_bind (tuple_item0 t) (\<lambda>psk_length.
                    if length1 - 9 < psk_length
                    then Inl (SystemError ''Invalid response length'')
                    else err_bind (item message 0) (\<lambda>m0.
                         if m0 \<noteq> 0x00 then Inl (SystemError ''Invalid response'')
                         else err_bind (unpack_I (py_slice message 1 5)) (\<lambda>t'.
                              err_bind (tuple_item0 t') (\<lambda>echo.
                              if echo \<noteq> address then Inl (SystemError ''Invalid response'')
                              else Inr (py_slice message 9 (9 + psk_length))))))))))))"

section \<open>Basic facts about the primitives\<close>

lemma and_mask_int: "(x::int) AND (2 ^ n - 1) = x mod 2 ^ n"
  by (metis mask_eq_exp_minus_1 take_bit_eq_mask take_bit_eq_mod)

lemma and_255: "(x::int) AND 0xff = x mod 256"
  using and_mask_int [of x 8] by simp

lemma and_15: "(x::int) AND 0xf = x mod 16"
  using and_mask_int [of x 4] by simp

lemma and_7: "(x::int) AND 0x7 = x mod 8"
  using and_mask_int [of x 3] by simp

lemma and_1: "(x::int) AND 0x1 = x mod 2"
  using and_mask_int [of x 1] by simp

lemma uint_byte_of_int: "0 \<le> v \<Longrightarrow> v \<le> 255 \<Longrightarrow> uint (word_of_int v :: byte) = v"
  by (simp add: uint_word_of_int)

lemma uint_byte_mod: "uint (word_of_int (v mod 256) :: byte) = v mod 256"
  by (simp add: uint_word_of_int)

lemma mod_256_le: "(x::int) mod 256 \<le> 255"
proof -
  have "x mod 256 < 256" by (rule pos_mod_bound) simp
  then show ?thesis by simp
qed

lemma uint_byte_le: "uint (b :: byte) \<le> 255"
  using uint_lt2p [of b] by simp

lemma py_sum_Cons: "py_sum (x # xs) = uint x + py_sum xs"
  by (simp add: py_sum_def)

lemma slice_nonneg:
  "0 \<le> i \<Longrightarrow> 0 \<le> j \<Longrightarrow> py_slice xs i j = take (nat (j - i)) (drop (nat i) xs)"
proof -
  assume "0 \<le> i" "0 \<le> j"
  then show ?thesis
    by (cases "i \<le> int (length xs)"; cases "j \<le> int (length xs)")
       (simp_all add: py_slice_def len_def Let_def min_def)
qed

lemma slice_from: "0 \<le> n \<Longrightarrow> py_slice xs (int k) (int k + n) = take (nat n) (drop k xs)"
proof -
  assume n: "0 \<le> n"
  have "py_slice xs (int k) (int k + n) = take (nat (int k + n - int k)) (drop (nat (int k)) xs)"
    by (rule slice_nonneg) (use n in simp_all)
  then show ?thesis by simp
qed

lemma slice_prefix: "0 \<le> n \<Longrightarrow> py_slice xs 0 n = take (nat n) xs"
  using slice_from [of n xs 0] by simp

lemma item_nat:
  "item xs (int k) = (if k < length xs then Inr (uint (xs ! k)) else Inl IndexError)"
  by (simp add: item_def list_item_def len_def err_bind_def)

lemma unpack_pack_H:
  assumes "0 \<le> v" "v \<le> 0xffff"
  shows "unpack_H [word_of_int (v mod 256), word_of_int (v div 256)] = Inr [v]"
proof -
  have "0 \<le> v div 256" "v div 256 \<le> 255" using assms by simp_all
  then have "uint (word_of_int (v div 256) :: byte) = v div 256"
    by (rule uint_byte_of_int)
  then show ?thesis by (simp add: unpack_H_def uint_byte_mod)
qed

section \<open>Properties of command identifiers\<close>

lemma or_disjoint_add:
  assumes "0 \<le> b" "b < 2 ^ n"
  shows "push_bit n (a::int) OR b = push_bit n a + b"
proof -
  have "push_bit n a AND b = 0"
  proof (rule bit_eqI)
    fix k
    have "bit b k \<Longrightarrow> k < n"
      using assms by (metis bit_take_bit_iff take_bit_int_eq_self)
    then show "bit (push_bit n a AND b) k = bit (0::int) k"
      by (auto simp add: bit_and_iff bit_push_bit_iff)
  qed
  then show ?thesis
    by (metis disjunctive_add_eq_or)
qed

lemma encode_command_arith:
  assumes "0 \<le> cmd1" "cmd1 \<le> 7"
  shows "encode_command cmd0 cmd1 = 16 * cmd0 + 2 * cmd1"
proof -
  have "push_bit 4 cmd0 OR push_bit 1 cmd1 = push_bit 4 cmd0 + push_bit 1 cmd1"
    using assms by (intro or_disjoint_add) (simp_all add: push_bit_eq_mult)
  then show ?thesis
    by (simp add: encode_command_def push_bit_eq_mult)
qed

text \<open>
  C4. Decoding an encoded command identifier gives back both parts, for every
  \<open>cmd0\<close> from 0 to 15 and \<open>cmd1\<close> from 0 to 7; and \<open>decode_command\<close> raises
  ValueError on every 8-bit identifier whose bit 0 is set.
\<close>

theorem command_roundtrip_and_odd_rejected:
  "(0 \<le> cmd0 \<and> cmd0 \<le> 15 \<and> 0 \<le> cmd1 \<and> cmd1 \<le> 7 \<longrightarrow>
      decode_command (encode_command cmd0 cmd1) = Inr (cmd0, cmd1)) \<and>
   (0 \<le> command \<and> command \<le> 255 \<and> bit command 0 \<longrightarrow>
      decode_command command = Inl (ValueError ''Invalid command''))"
proof (intro conjI impI)
  assume "0 \<le> cmd0 \<and> cmd0 \<le> 15 \<and> 0 \<le> cmd1 \<and> cmd1 \<le> 7"
  then show "decode_command (encode_command cmd0 cmd1) = Inr (cmd0, cmd1)"
    by (simp add: encode_command_arith decode_command_def and_1 and_15 and_7 drop_bit_eq_div)
next
  assume "0 \<le> command \<and> command \<le> 255 \<and> bit command 0"
  then show "decode_command command = Inl (ValueError ''Invalid command'')"
    by (simp add: decode_command_def and_1 bit_0 odd_iff_mod_2_eq_one)
qed

theorem command_roundtrip_and_odd_rejected_witness:
  "decode_command (encode_command 0xa 0x4) = Inr (0xa, 0x4) \<and>
   encode_command 0xa 0x4 = 0xa8 \<and>
   decode_command 0xa9 = Inl (ValueError ''Invalid command'')"
proof -
  have e: "encode_command 0xa 0x4 = 0xa8"
    by (simp add: encode_command_def)
  have b: "bit (0xa9 :: int) 0"
    by simp
  show ?thesis
    using command_roundtrip_and_odd_rejected [of "0xa" "0x4" "0xa9"] e b by simp
qed

section \<open>Properties of the message pack codec\<close>

lemma encode_message_pack_frame:
  assumes "0 \<le> flags" "flags \<le> 255" "length data < 65536"
  shows "encode_message_pack data flags None =
    Inr ([word_of_int flags, word_of_int (len data mod 256), word_of_int (len data div 256),
          word_of_int ((flags + len data mod 256 + len data div 256) mod 256)] @ data)"
proof -
  have l: "0 \<le> len data" "len data \<le> 0xffff" using assms by (simp_all add: len_def)
  then have d: "0 \<le> len data div 256" "len data div 256 \<le> 255" by simp_all
  have s: "py_sum [word_of_int flags, word_of_int (len data mod 256), word_of_int (len data div 256)]
     = flags + len data mod 256 + len data div 256"
    using assms(1,2) d by (simp add: py_sum_def uint_byte_of_int uint_byte_mod)
  have "pack_B ((flags + len data mod 256 + len data div 256) AND 0xff) =
     Inr [word_of_int ((flags + len data mod 256 + len data div 256) mod 256)]"
    unfolding and_255 by (simp add: pack_B_def)
  then show ?thesis
    using assms(1,2) l s
    by (simp add: encode_message_pack_def pack_B_def pack_H_def err_bind_def Let_def)
qed

lemma decode_message_pack_frame:
  assumes "0 \<le> flags" "flags \<le> 255" "0 \<le> n" "n \<le> 0xffff"
  shows "decode_message_pack (word_of_int flags # word_of_int (n mod 256) # word_of_int (n div 256) #
          word_of_int ((flags + n mod 256 + n div 256) mod 256) # rest) =
         Inr (take (nat n) rest, flags, n)"
proof -
  let ?p = "word_of_int flags # word_of_int (n mod 256) # word_of_int (n div 256) #
          word_of_int ((flags + n mod 256 + n div 256) mod 256) # rest"
  have d: "0 \<le> n div 256" "n div 256 \<le> 255" using assms by simp_all
  have s13: "py_slice ?p 1 3 = [word_of_int (n mod 256), word_of_int (n div 256)]"
    using slice_from [of 2 ?p 1] by simp
  have s03: "py_slice ?p 0 3 = [word_of_int flags, word_of_int (n mod 256), word_of_int (n div 256)]"
    using slice_prefix [of 3 ?p] by simp
  have sm: "py_sum (py_slice ?p 0 3) = flags + n mod 256 + n div 256"
    unfolding s03 using assms(1,2) d by (simp add: py_sum_def uint_byte_of_int uint_byte_mod)
  have i3: "item ?p 3 = Inr ((flags + n mod 256 + n div 256) mod 256)"
    using item_nat [of ?p 3] by (simp add: uint_byte_mod)
  have i0: "item ?p 0 = Inr flags"
    using item_nat [of ?p 0] assms(1,2) by (simp add: uint_byte_of_int)
  have s4: "py_slice ?p 4 (4 + n) = take (nat n) rest"
    using slice_from [where n = n and k = 4 and xs = ?p] assms(3) by simp
  show ?thesis
    by (simp add: decode_message_pack_def s13 unpack_pack_H [OF assms(3,4)] sm i3 i0 s4
          err_bind_def tuple_item0_def and_255)
qed

text \<open>
  C1. For every data of fewer than \<open>2^16\<close> bytes and every flags value from 0 to 255,
  \<open>encode_message_pack\<close> returns a payload (it does not raise) and
  \<open>decode_message_pack\<close> of that payload returns exactly
  \<open>(data, flags, len(data))\<close>.
\<close>

theorem message_pack_roundtrip:
  assumes "length data < 2 ^ 16" "0 \<le> flags" "flags \<le> 255"
  shows "\<exists>payload. encode_message_pack data flags None = Inr payload \<and>
           decode_message_pack payload = Inr (data, flags, len data)"
proof -
  have l: "0 \<le> len data" "len data \<le> 0xffff" using assms by (simp_all add: len_def)
  have "decode_message_pack
          (word_of_int flags # word_of_int (len data mod 256) # word_of_int (len data div 256) #
            word_of_int ((flags + len data mod 256 + len data div 256) mod 256) # data)
        = Inr (data, flags, len data)"
    using decode_message_pack_frame [OF assms(2,3) l, of data] by (simp add: len_def)
  then show ?thesis
    using assms encode_message_pack_frame [of flags data] by simp
qed

theorem message_pack_roundtrip_witness:
  "length [0x01, 0x02, 0x03 :: byte] < 2 ^ 16 \<and> (0::int) \<le> 0xa0 \<and> (0xa0::int) \<le> 255 \<and>
   (\<exists>payload. encode_message_pack [0x01, 0x02, 0x03] 0xa0 None = Inr payload \<and>
      decode_message_pack payload = Inr ([0x01, 0x02, 0x03], 0xa0, len [0x01, 0x02, 0x03 :: byte]))"
  using message_pack_roundtrip [of "[0x01, 0x02, 0x03]" "0xa0"] by simp

section \<open>Properties of the message protocol codec\<close>

lemma decode_message_pack_Cons:
  "decode_message_pack (f # lo # hi # ck # rest) =
     (if (uint f + uint lo + uint hi) mod 256 \<noteq> uint ck
      then Inl (ValueError ''Invalid payload'')
      else Inr (take (nat (uint lo + 256 * uint hi)) rest, uint f, uint lo + 256 * uint hi))"
proof -
  let ?p = "f # lo # hi # ck # rest"
  let ?n = "uint lo + 256 * uint hi"
  have n: "0 \<le> ?n" by simp
  have s13: "py_slice ?p 1 3 = [lo, hi]"
    using slice_from [of 2 ?p 1] by simp
  have s03: "py_slice ?p 0 3 = [f, lo, hi]"
    using slice_prefix [of 3 ?p] by simp
  have i3: "item ?p 3 = Inr (uint ck)"
    using item_nat [of ?p 3] by simp
  have i0: "item ?p 0 = Inr (uint f)"
    using item_nat [of ?p 0] by simp
  have s4: "py_slice ?p 4 (4 + ?n) = take (nat ?n) rest"
    using slice_from [where n = ?n and k = 4 and xs = ?p] n by simp
  show ?thesis
    by (simp add: decode_message_pack_def s13 s03 i3 i0 s4 unpack_H_def err_bind_def
          tuple_item0_def and_255 py_sum_def add.assoc)
qed

lemma decode_message_protocol_Cons:
  assumes "int k + 1 = uint lo + 256 * uint hi" "k < length body"
  shows "decode_message_protocol (c # lo # hi # body) checksum =
     (if (if checksum
          then uint (body ! k) \<noteq> (0xaa - (uint c + uint lo + uint hi + py_sum (take k body))) mod 256
          else uint (body ! k) \<noteq> 0x88)
      then Inl (ValueError ''Invalid payload'')
      else Inr (take k body, uint c, int k))"
proof -
  let ?p = "c # lo # hi # body"
  let ?n = "uint lo + 256 * uint hi"
  have n: "?n = int k + 1" using assms(1) by simp
  have s13: "py_slice ?p 1 3 = [lo, hi]"
    using slice_from [of 2 ?p 1] by simp
  have tr: "item ?p (3 + int k) = Inr (uint (body ! k))"
    using item_nat [of ?p "3 + k"] assms(2) by simp
  have k3: "nat (3 + int k) = Suc (Suc (Suc k))" by simp
  have s0: "py_slice ?p 0 (3 + int k) = c # lo # hi # take k body"
    using slice_prefix [of "3 + int k" ?p] by (simp add: k3)
  have s3: "py_slice ?p 3 (3 + int k) = take k body"
    using slice_from [where n = "int k" and k = 3 and xs = ?p] by simp
  have i0: "item ?p 0 = Inr (uint c)"
    using item_nat [of ?p 0] by simp
  have sm: "py_sum (c # lo # hi # take k body) = uint c + uint lo + uint hi + py_sum (take k body)"
    by (simp add: py_sum_def)
  show ?thesis
    unfolding decode_message_protocol_def s13
    by (simp add: unpack_H_def err_bind_def tuple_item0_def tr s0 s3 i0 sm and_255 n)
qed

lemma encode_message_protocol_frame:
  assumes "0 \<le> command" "command \<le> 255" "length data + 1 < 65536"
  shows "encode_message_protocol data command None checksum =
    Inr (word_of_int command # word_of_int ((len data + 1) mod 256) #
         word_of_int ((len data + 1) div 256) #
         data @ [word_of_int (if checksum
                    then (0xaa - (command + (len data + 1) mod 256 + (len data + 1) div 256
                                  + py_sum data)) mod 256
                    else 0x88)])"
proof -
  let ?L = "len data + 1"
  have l: "0 \<le> ?L" "?L \<le> 0xffff" using assms by (simp_all add: len_def)
  then have d: "0 \<le> ?L div 256" "?L div 256 \<le> 255" by simp_all
  have u: "uint (word_of_int (?L div 256) :: byte) = ?L div 256"
    using d by (rule uint_byte_of_int)
  have s: "py_sum (word_of_int command # word_of_int (?L mod 256) # word_of_int (?L div 256) # data)
     = command + ?L mod 256 + ?L div 256 + py_sum data"
    using assms(1,2) u by (simp add: py_sum_Cons uint_byte_of_int uint_byte_mod)
  show ?thesis
    using assms(1,2) l
    by (cases checksum)
       (simp_all add: encode_message_protocol_def pack_B_def pack_H_def err_bind_def
          Let_def s and_255 mod_256_le)
qed

text \<open>
  C2. For every data with \<open>len(data) + 1 < 2^16\<close>, every command from 0 to 255 and
  both checksum policies, \<open>encode_message_protocol\<close> returns a payload (it does not
  raise), the length field of that payload (its bytes 1 and 2, little-endian) is
  \<open>len(data) + 1\<close>, and \<open>decode_message_protocol\<close> of that payload under the same
  policy returns exactly \<open>(data, command, len(data))\<close>.
\<close>

theorem message_protocol_roundtrip:
  assumes "length data + 1 < 2 ^ 16" "0 \<le> command" "command \<le> 255"
  shows "\<exists>payload. encode_message_protocol data command None checksum = Inr payload \<and>
           unpack_H (py_slice payload 1 3) = Inr [len data + 1] \<and>
           decode_message_protocol payload checksum = Inr (data, command, len data)"
proof -
  let ?L = "len data + 1"
  let ?t = "word_of_int (if checksum
              then (0xaa - (command + ?L mod 256 + ?L div 256 + py_sum data)) mod 256
              else 0x88) :: byte"
  let ?lo = "word_of_int (?L mod 256) :: byte"
  let ?hi = "word_of_int (?L div 256) :: byte"
  let ?c = "word_of_int command :: byte"
  let ?p = "?c # ?lo # ?hi # data @ [?t]"
  have l: "0 \<le> ?L" "?L \<le> 0xffff" using assms by (simp_all add: len_def)
  then have d: "0 \<le> ?L div 256" "?L div 256 \<le> 255" by simp_all
  have uhi: "uint ?hi = ?L div 256"
    using d by (rule uint_byte_of_int)
  have ulo: "uint ?lo = ?L mod 256"
    by (rule uint_byte_mod)
  have uc: "uint ?c = command"
    using assms(2,3) by (rule uint_byte_of_int)
  have ut: "uint ?t = (if checksum
              then (0xaa - (command + ?L mod 256 + ?L div 256 + py_sum data)) mod 256
              else 0x88)"
    by (cases checksum) (simp_all add: uint_byte_mod)
  have enc: "encode_message_protocol data command None checksum = Inr ?p"
    using encode_message_protocol_frame [of command data checksum] assms by simp
  have field: "unpack_H (py_slice ?p 1 3) = Inr [?L]"
    using slice_from [of 2 ?p 1] unpack_pack_H [OF l] by simp
  have len: "int (length data) + 1 = uint ?lo + 256 * uint ?hi"
    unfolding uhi ulo by (simp add: len_def)
  have lk: "int (length data) = len data"
    by (simp add: len_def)
  have "decode_message_protocol ?p checksum =
     (if (if checksum
          then uint ((data @ [?t]) ! length data) \<noteq>
                 (0xaa - (uint ?c + uint ?lo + uint ?hi + py_sum (take (length data) (data @ [?t])))) mod 256
          else uint ((data @ [?t]) ! length data) \<noteq> 0x88)
      then Inl (ValueError ''Invalid payload'')
      else Inr (take (length data) (data @ [?t]), uint ?c, int (length data)))"
    by (rule decode_message_protocol_Cons [OF len]) simp
  also have "\<dots> = Inr (data, command, len data)"
    unfolding uc ulo uhi nth_append_length ut by (simp add: lk)
  finally have dec: "decode_message_protocol ?p checksum = Inr (data, command, len data)" .
  show ?thesis
    using enc field dec by blast
qed

theorem message_protocol_roundtrip_witness:
  "length [0x01, 0x00 :: byte] + 1 < 2 ^ 16 \<and> (0::int) \<le> 0x20 \<and> (0x20::int) \<le> 255 \<and>
   (\<exists>payload. encode_message_protocol [0x01, 0x00] 0x20 None True = Inr payload \<and>
      unpack_H (py_slice payload 1 3) = Inr [len [0x01, 0x00 :: byte] + 1] \<and>
      decode_message_protocol payload True = Inr ([0x01, 0x00], 0x20, len [0x01, 0x00 :: byte]))"
  using message_protocol_roundtrip [of "[0x01, 0x00]" "0x20" True] by simp

section \<open>Single-byte changes of a frame\<close>

lemma byte_mod_eq_iff:
  "(x mod 256 = y mod (256::int)) \<longleftrightarrow> (word_of_int x :: byte) = word_of_int y"
  by (simp add: word_of_int_eq_iff take_bit_eq_mod)

lemma byte_sum_neq:
  assumes "(a :: byte) \<noteq> b"
  shows "(uint a + s) mod 256 \<noteq> (uint b + s) mod 256"
  using assms by (simp add: byte_mod_eq_iff)

lemma byte_shift_neq:
  assumes "(a :: byte) \<noteq> b"
  shows "x mod 256 \<noteq> (x + uint a - uint b) mod 256"
  using assms by (simp add: byte_mod_eq_iff)

lemma py_sum_update:
  "m < length xs \<Longrightarrow> py_sum (xs[m := v]) = py_sum xs - uint (xs ! m) + uint v"
proof (induction xs arbitrary: m)
  case Nil
  then show ?case by simp
next
  case (Cons x xs)
  then show ?case
    by (cases m) (simp_all add: py_sum_Cons)
qed

lemma encode_message_pack_Inr:
  assumes "encode_message_pack data flags None = Inr frame"
  shows "0 \<le> flags \<and> flags \<le> 255 \<and> length data < 65536"
proof -
  have f: "0 \<le> flags \<and> flags \<le> 255"
    using assms
    by (cases "0 \<le> flags \<and> flags \<le> 255")
       (simp_all add: encode_message_pack_def pack_B_def err_bind_def)
  have "len data \<le> 0xffff"
    using assms f
    by (cases "len data \<le> 0xffff")
       (simp_all add: encode_message_pack_def pack_B_def pack_H_def err_bind_def Let_def)
  then show ?thesis using f by (simp add: len_def)
qed

lemma encode_message_pack_valid:
  assumes "encode_message_pack data flags None = Inr frame"
  shows "\<exists>f lo hi ck. frame = f # lo # hi # ck # data \<and>
           (uint f + uint lo + uint hi) mod 256 = uint ck"
proof -
  have r: "0 \<le> flags" "flags \<le> 255" "length data < 65536"
    using encode_message_pack_Inr [OF assms] by simp_all
  let ?n = "len data"
  have d: "0 \<le> ?n div 256" "?n div 256 \<le> 255" using r(3) by (simp_all add: len_def)
  have fr: "frame = word_of_int flags # word_of_int (?n mod 256) # word_of_int (?n div 256) #
          word_of_int ((flags + ?n mod 256 + ?n div 256) mod 256) # data"
    using encode_message_pack_frame [OF r] assms by simp
  have "(uint (word_of_int flags :: byte) + uint (word_of_int (?n mod 256) :: byte)
          + uint (word_of_int (?n div 256) :: byte)) mod 256
        = uint (word_of_int ((flags + ?n mod 256 + ?n div 256) mod 256) :: byte)"
    using r(1,2) d by (simp add: uint_byte_of_int uint_byte_mod)
  then show ?thesis using fr by blast
qed

lemma encode_message_protocol_Inr:
  assumes "encode_message_protocol data command None checksum = Inr frame"
  shows "0 \<le> command \<and> command \<le> 255 \<and> length data + 1 < 65536"
proof -
  have c: "0 \<le> command \<and> command \<le> 255"
    using assms
    by (cases "0 \<le> command \<and> command \<le> 255")
       (simp_all add: encode_message_protocol_def pack_B_def err_bind_def)
  have "len data + 1 \<le> 0xffff"
    using assms c
    by (cases "len data + 1 \<le> 0xffff")
       (simp_all add: encode_message_protocol_def pack_B_def pack_H_def err_bind_def Let_def)
  then show ?thesis using c by (simp add: len_def)
qed

lemma encode_message_protocol_valid:
  assumes "encode_message_protocol data command None checksum = Inr frame"
  shows "\<exists>c lo hi t. frame = c # lo # hi # data @ [t] \<and>
           int (length data) + 1 = uint lo + 256 * uint hi \<and>
           uint t = (if checksum
                     then (0xaa - (uint c + uint lo + uint hi + py_sum data)) mod 256
                     else 0x88)"
proof -
  have r: "0 \<le> command" "command \<le> 255" "length data + 1 < 65536"
    using encode_message_protocol_Inr [OF assms] by simp_all
  let ?L = "len data + 1"
  let ?t = "word_of_int (if checksum
              then (0xaa - (command + ?L mod 256 + ?L div 256 + py_sum data)) mod 256
              else 0x88) :: byte"
  let ?lo = "word_of_int (?L mod 256) :: byte"
  let ?hi = "word_of_int (?L div 256) :: byte"
  let ?c = "word_of_int command :: byte"
  have l: "0 \<le> ?L" "?L \<le> 0xffff" using r(3) by (simp_all add: len_def)
  then have d: "0 \<le> ?L div 256" "?L div 256 \<le> 255" by simp_all
  have uhi: "uint ?hi = ?L div 256"
    using d by (rule uint_byte_of_int)
  have ulo: "uint ?lo = ?L mod 256"
    by (rule uint_byte_mod)
  have uc: "uint ?c = command"
    using r(1,2) by (rule uint_byte_of_int)
  have ut: "uint ?t = (if checksum
              then (0xaa - (uint ?c + uint ?lo + uint ?hi + py_sum data)) mod 256
              else 0x88)"
    unfolding uc ulo uhi by (cases checksum) (simp_all add: uint_byte_mod)
  have fr: "frame = ?c # ?lo # ?hi # data @ [?t]"
    using encode_message_protocol_frame [OF r, of checksum] assms by simp
  have len: "int (length data) + 1 = uint ?lo + 256 * uint ?hi"
    unfolding uhi ulo by (simp add: len_def)
  show ?thesis using fr len ut by blast
qed

lemma message_pack_header_change:
  assumes "encode_message_pack data flags None = Inr frame" "i < 4" "v \<noteq> frame ! i"
  shows "decode_message_pack (frame[i := v]) = Inl (ValueError ''Invalid payload'')"
proof -
  obtain f lo hi ck where fr: "frame = f # lo # hi # ck # data"
    and ck: "(uint f + uint lo + uint hi) mod 256 = uint ck"
    using encode_message_pack_valid [OF assms(1)] by blast
  consider "i = 0" | "i = 1" | "i = 2" | "i = 3" using assms(2) by linarith
  then show ?thesis
  proof cases
    case 1
    then have "v \<noteq> f" using assms(3) fr by simp
    then have "(uint v + (uint lo + uint hi)) mod 256 \<noteq> (uint f + (uint lo + uint hi)) mod 256"
      by (rule byte_sum_neq)
    then have "(uint v + uint lo + uint hi) mod 256 \<noteq> uint ck"
      using ck by (simp add: add.assoc)
    then show ?thesis
      unfolding fr 1 by (simp add: decode_message_pack_Cons)
  next
    case 2
    then have "v \<noteq> lo" using assms(3) fr by simp
    then have "(uint v + (uint f + uint hi)) mod 256 \<noteq> (uint lo + (uint f + uint hi)) mod 256"
      by (rule byte_sum_neq)
    then have "(uint f + uint v + uint hi) mod 256 \<noteq> uint ck"
      using ck by (simp add: add.assoc add.left_commute)
    then show ?thesis
      unfolding fr 2 by (simp add: decode_message_pack_Cons)
  next
    case 3
    then have "v \<noteq> hi" using assms(3) fr by simp
    then have "(uint v + (uint f + uint lo)) mod 256 \<noteq> (uint hi + (uint f + uint lo)) mod 256"
      by (rule byte_sum_neq)
    then have "(uint f + uint lo + uint v) mod 256 \<noteq> uint ck"
      using ck by (simp add: add.commute)
    then show ?thesis
      unfolding fr 3 by (simp add: decode_message_pack_Cons numeral_2_eq_2)
  next
    case 4
    then have "v \<noteq> ck" using assms(3) fr by (simp add: numeral_3_eq_3)
    then have "(uint f + uint lo + uint hi) mod 256 \<noteq> uint v"
      using ck by (simp add: word_uint_eq_iff)
    then show ?thesis
      unfolding fr 4 by (simp add: decode_message_pack_Cons numeral_3_eq_3)
  qed
qed

lemma frame_position_cases:
  assumes "j < k + 4" "j \<noteq> 1" "j \<noteq> 2"
  obtains "j = 0" | m where "j = Suc (Suc (Suc m))" "m < k" | "j = Suc (Suc (Suc k))"
proof -
  have "j = 0 \<or> (3 \<le> j \<and> j - 3 < k) \<or> j = k + 3"
    using assms by arith
  then show ?thesis
  proof (elim disjE conjE)
    assume "j = 0"
    then show ?thesis by (rule that(1))
  next
    assume "3 \<le> j" "j - 3 < k"
    then have "j = Suc (Suc (Suc (j - 3)))" by arith
    then show ?thesis using \<open>j - 3 < k\<close> by (rule that(2))
  next
    assume "j = k + 3"
    then have "j = Suc (Suc (Suc k))" by arith
    then show ?thesis by (rule that(3))
  qed
qed

lemma message_protocol_change:
  assumes "encode_message_protocol data command None True = Inr frame"
    "j < length frame" "j \<noteq> 1" "j \<noteq> 2" "v \<noteq> frame ! j"
  shows "decode_message_protocol (frame[j := v]) True = Inl (ValueError ''Invalid payload'')"
proof -
  obtain c lo hi t where fr: "frame = c # lo # hi # data @ [t]"
    and len: "int (length data) + 1 = uint lo + 256 * uint hi"
    and t: "uint t = (0xaa - (uint c + uint lo + uint hi + py_sum data)) mod 256"
    using encode_message_protocol_valid [OF assms(1)] by auto
  let ?k = "length data"
  let ?S = "uint c + uint lo + uint hi + py_sum data"
  have jl: "j < ?k + 4" using assms(2) fr by simp
  from jl assms(3,4) show ?thesis
  proof (cases rule: frame_position_cases)
    case 1
    then have "v \<noteq> c" using assms(5) fr by simp
    then have h: "(0xaa - ?S) mod 256 \<noteq> (0xaa - ?S + uint c - uint v) mod 256"
      by (intro byte_shift_neq) simp
    have e: "0xaa - ?S + uint c - uint v = 0xaa - (uint v + uint lo + uint hi + py_sum data)"
      by simp
    have ne: "uint t \<noteq> (0xaa - (uint v + uint lo + uint hi + py_sum data)) mod 256"
      unfolding t using h [unfolded e] .
    have "decode_message_protocol (v # lo # hi # data @ [t]) True
            = Inl (ValueError ''Invalid payload'')"
      using decode_message_protocol_Cons [OF len, of "data @ [t]" v True] ne by simp
    then show ?thesis unfolding fr 1 by simp
  next
    case (2 m)
    then have vd: "data ! m \<noteq> v" using assms(5) fr by (auto simp add: nth_append)
    have h: "(0xaa - ?S) mod 256 \<noteq> (0xaa - ?S + uint (data ! m) - uint v) mod 256"
      using vd by (rule byte_shift_neq)
    have e: "0xaa - ?S + uint (data ! m) - uint v
         = 0xaa - (uint c + uint lo + uint hi + (py_sum data - uint (data ! m) + uint v))"
      by simp
    have ne: "uint t \<noteq> (0xaa - (uint c + uint lo + uint hi + py_sum (data[m := v]))) mod 256"
      unfolding t py_sum_update [OF 2(2)] using h [unfolded e] .
    have len': "int (length (data[m := v])) + 1 = uint lo + 256 * uint hi"
      using len by simp
    have "decode_message_protocol (c # lo # hi # data[m := v] @ [t]) True
            = Inl (ValueError ''Invalid payload'')"
      using decode_message_protocol_Cons [OF len', of "data[m := v] @ [t]" c True] ne
      by (simp add: nth_append)
    then show ?thesis unfolding fr 2(1) using 2(2) by (simp add: list_update_append)
  next
    case 3
    then have "v \<noteq> t" using assms(5) fr by simp
    then have ne: "uint v \<noteq> (0xaa - ?S) mod 256"
      using t by (simp add: word_uint_eq_iff)
    have "decode_message_protocol (c # lo # hi # data @ [v]) True
            = Inl (ValueError ''Invalid payload'')"
      using decode_message_protocol_Cons [OF len, of "data @ [v]" c True] ne by simp
    then show ?thesis unfolding fr 3 by (simp add: list_update_append)
  qed
qed

lemma message_protocol_sentinel_change:
  assumes "encode_message_protocol data command None False = Inr frame"
    "v \<noteq> frame ! (length frame - 1)"
  shows "decode_message_protocol (frame[length frame - 1 := v]) False
           = Inl (ValueError ''Invalid payload'')"
proof -
  obtain c lo hi t where fr: "frame = c # lo # hi # data @ [t]"
    and len: "int (length data) + 1 = uint lo + 256 * uint hi"
    and t: "uint t = 0x88"
    using encode_message_protocol_valid [OF assms(1)] by auto
  have "v \<noteq> t" using assms(2) fr by (simp add: nth_append)
  then have ne: "uint v \<noteq> 0x88"
    using t by (simp add: word_uint_eq_iff)
  have "decode_message_protocol (c # lo # hi # data @ [v]) False
          = Inl (ValueError ''Invalid payload'')"
    using decode_message_protocol_Cons [OF len, of "data @ [v]" c False] ne by simp
  then show ?thesis unfolding fr by (simp add: list_update_append)
qed

text \<open>
  C3, as amended. A change of one byte of a validly encoded frame is detected, with
  ValueError "Invalid payload", in these positions: for a message pack, the four header
  bytes (flags, the two length bytes, checksum); for a message protocol decoded with the
  checksum enabled, the command byte, every data byte and the trailer; for a message protocol
  decoded with the checksum disabled, the trailer. The checksum of a message pack does not
  cover its data, the sentinel \<open>0x88\<close> covers nothing but itself, and a changed length
  field of a message protocol moves the place where the trailer is looked for.
\<close>

theorem single_byte_change_detected:
  "(encode_message_pack data flags None = Inr pack_frame \<and> i < 4 \<and> v \<noteq> pack_frame ! i \<longrightarrow>
      decode_message_pack (pack_frame[i := v]) = Inl (ValueError ''Invalid payload'')) \<and>
   (encode_message_protocol data command None True = Inr sum_frame \<and>
      j < length sum_frame \<and> j \<noteq> 1 \<and> j \<noteq> 2 \<and> v \<noteq> sum_frame ! j \<longrightarrow>
      decode_message_protocol (sum_frame[j := v]) True = Inl (ValueError ''Invalid payload'')) \<and>
   (encode_message_protocol data command None False = Inr plain_frame \<and>
      v \<noteq> plain_frame ! (length plain_frame - 1) \<longrightarrow>
      decode_message_protocol (plain_frame[length plain_frame - 1 := v]) False
        = Inl (ValueError ''Invalid payload''))"
  using message_pack_header_change [of data flags pack_frame i v]
    message_protocol_change [of data command sum_frame j v]
    message_protocol_sentinel_change [of data command plain_frame v]
  by blast

theorem single_byte_change_detected_witness:
  "encode_message_pack [0x01, 0x00] 0xa0 None = Inr [0xa0, 0x02, 0x00, 0xa2, 0x01, 0x00] \<and>
   decode_message_pack ([0xa0, 0x02, 0x00, 0xa2, 0x01, 0x00][1 := 0xfe])
     = Inl (ValueError ''Invalid payload'') \<and>
   encode_message_protocol [0x01, 0x00] 0x20 None True = Inr [0x20, 0x03, 0x00, 0x01, 0x00, 0x86] \<and>
   decode_message_protocol ([0x20, 0x03, 0x00, 0x01, 0x00, 0x86][3 := 0xfe]) True
     = Inl (ValueError ''Invalid payload'') \<and>
   encode_message_protocol [0x01, 0x00] 0x20 None False = Inr [0x20, 0x03, 0x00, 0x01, 0x00, 0x88] \<and>
   decode_message_protocol ([0x20, 0x03, 0x00, 0x01, 0x00, 0x88][5 := 0xfe]) False
     = Inl (ValueError ''Invalid payload'')"
proof -
  have p: "encode_message_pack [0x01, 0x00] 0xa0 None = Inr [0xa0, 0x02, 0x00, 0xa2, 0x01, 0x00]"
    by (simp add: encode_message_pack_def pack_B_def pack_H_def err_bind_def py_sum_def len_def)
  have s: "encode_message_protocol [0x01, 0x00] 0x20 None True
             = Inr [0x20, 0x03, 0x00, 0x01, 0x00, 0x86]"
    by (simp add: encode_message_protocol_def pack_B_def pack_H_def err_bind_def py_sum_def
          len_def)
  have n: "encode_message_protocol [0x01, 0x00] 0x20 None False
             = Inr [0x20, 0x03, 0x00, 0x01, 0x00, 0x88]"
    by (simp add: encode_message_protocol_def pack_B_def pack_H_def err_bind_def py_sum_def
          len_def)
  show ?thesis
    using single_byte_change_detected [of "[0x01, 0x00]" "0xa0"
        "[0xa0, 0x02, 0x00, 0xa2, 0x01, 0x00]" 1 "0xfe" "0x20"
        "[0x20, 0x03, 0x00, 0x01, 0x00, 0x86]" 3 "[0x20, 0x03, 0x00, 0x01, 0x00, 0x88]"]
      p s n
    by simp
qed

text \<open>
  C3 as stated fails. In the message pack of \<open>[0x01]\<close> the data byte at position 4,
  inside the declared length, is changed to \<open>0xfe\<close> and the frame still decodes, to the
  changed data. In a message protocol frame with checksum the low length byte is changed from
  3 to 1 and the frame decodes to empty data. In a message protocol frame without checksum a
  data byte is changed and the frame decodes to the changed data.
\<close>

theorem single_byte_change_counterexample:
  "encode_message_pack [0x01] 0xa0 None = Inr [0xa0, 0x01, 0x00, 0xa1, 0x01] \<and>
   decode_message_pack ([0xa0, 0x01, 0x00, 0xa1, 0x01][4 := 0xfe]) = Inr ([0xfe], 0xa0, 1) \<and>
   encode_message_protocol [0xa9, 0x00] 0x00 None True
     = Inr [0x00, 0x03, 0x00, 0xa9, 0x00, 0xfe] \<and>
   decode_message_protocol ([0x00, 0x03, 0x00, 0xa9, 0x00, 0xfe][1 := 0x01]) True
     = Inr ([], 0x00, 0) \<and>
   encode_message_protocol [0x01, 0x00] 0x50 None False
     = Inr [0x50, 0x03, 0x00, 0x01, 0x00, 0x88] \<and>
   decode_message_protocol ([0x50, 0x03, 0x00, 0x01, 0x00, 0x88][3 := 0xfe]) False
     = Inr ([0xfe, 0x00], 0x50, 2)"
proof -
  have e1: "encode_message_pack [0x01] 0xa0 None = Inr [0xa0, 0x01, 0x00, 0xa1, 0x01]"
    by (simp add: encode_message_pack_def pack_B_def pack_H_def err_bind_def py_sum_def len_def)
  have d1: "decode_message_pack ([0xa0, 0x01, 0x00, 0xa1, 0x01][4 := 0xfe])
              = Inr ([0xfe], 0xa0, 1)"
    by (simp add: decode_message_pack_Cons)
  have e2: "encode_message_protocol [0xa9, 0x00] 0x00 None True
              = Inr [0x00, 0x03, 0x00, 0xa9, 0x00, 0xfe]"
    by (simp add: encode_message_protocol_def pack_B_def pack_H_def err_bind_def py_sum_def
          len_def)
  have d2: "decode_message_protocol ([0x00, 0x03, 0x00, 0xa9, 0x00, 0xfe][1 := 0x01]) True
              = Inr ([], 0x00, 0)"
    using decode_message_protocol_Cons [of 0 "0x01" "0x00" "[0xa9, 0x00, 0xfe]" "0x00" True]
    by (simp add: py_sum_def)
  have e3: "encode_message_protocol [0x01, 0x00] 0x50 None False
              = Inr [0x50, 0x03, 0x00, 0x01, 0x00, 0x88]"
    by (simp add: encode_message_protocol_def pack_B_def pack_H_def err_bind_def py_sum_def
          len_def)
  have d3: "decode_message_protocol ([0x50, 0x03, 0x00, 0x01, 0x00, 0x88][3 := 0xfe]) False
              = Inr ([0xfe, 0x00], 0x50, 2)"
    using decode_message_protocol_Cons [of 2 "0x03" "0x00" "[0xfe, 0x00, 0x88]" "0x50" False]
    by simp
  show ?thesis
    using e1 d1 e2 d2 e3 d3 by simp
qed

section \<open>Properties of the image decoder\<close>

lemma item_nonneg:
  "0 \<le> i \<Longrightarrow>
   item xs i = (if nat i < length xs then Inr (uint (xs ! nat i)) else Inl IndexError)"
  using item_nat [of xs "nat i"] by simp

lemma decode_image_body_six:
  assumes "length chunk = 6"
  shows "decode_image_body chunk img = Inr (img @ chunk_samples chunk)"
  using assms
  by (simp add: decode_image_body_def chunk_samples_def item_nonneg err_bind_def)

lemma length_chunk_samples: "length (chunk_samples chunk) = 4"
  by (simp add: chunk_samples_def)

lemma sample_low_range:
  fixes x y :: byte
  shows "0 \<le> push_bit 8 (uint x AND 0xf) + uint y \<and> push_bit 8 (uint x AND 0xf) + uint y \<le> 4095"
proof -
  have "0 \<le> uint x mod 16" "uint x mod 16 < 16" by simp_all
  moreover have "0 \<le> uint y" "uint y \<le> 255" by (simp_all add: uint_byte_le)
  ultimately show ?thesis
    by (simp add: and_15 push_bit_eq_mult)
qed

lemma sample_high_range:
  fixes x y :: byte
  shows "0 \<le> push_bit 4 (uint x) + drop_bit 4 (uint y) \<and> push_bit 4 (uint x) + drop_bit 4 (uint y) \<le> 4095"
proof -
  have "uint y div 16 \<le> 255 div 16"
    by (rule zdiv_mono1) (simp_all add: uint_byte_le)
  then have "uint y div 16 \<le> 15" by simp
  moreover have "0 \<le> uint y div 16" by (simp add: pos_imp_zdiv_nonneg_iff)
  moreover have "0 \<le> uint x" "uint x \<le> 255" by (simp_all add: uint_byte_le)
  ultimately show ?thesis
    by (simp add: push_bit_eq_mult drop_bit_eq_div)
qed

lemma chunk_samples_range:
  assumes "s \<in> set (chunk_samples chunk)"
  shows "0 \<le> s \<and> s \<le> 4095"
  using assms sample_low_range [of "chunk ! 0" "chunk ! 1"]
    sample_high_range [of "chunk ! 3" "chunk ! 0"]
    sample_low_range [of "chunk ! 5" "chunk ! 2"]
    sample_high_range [of "chunk ! 4" "chunk ! 5"]
  by (auto simp add: chunk_samples_def)

lemma range_step_six:
  "range_step (len payload) 6 = map (\<lambda>k. int k * 6) [0..<(length payload + 5) div 6]"
proof -
  have "nat ((int (length payload) + 6 - 1) div 6) = (length payload + 5) div 6"
    by (simp add: nat_div_distrib nat_add_distrib)
  then show ?thesis by (simp add: range_step_def len_def)
qed

lemma chunk_of_payload:
  assumes "length payload = 6 * n" "k < n"
  shows "py_slice payload (int k * 6) (int k * 6 + 6) = take 6 (drop (6 * k) payload)"
    and "length (take 6 (drop (6 * k) payload)) = 6"
proof -
  have "py_slice payload (int (6 * k)) (int (6 * k) + 6) = take (nat 6) (drop (6 * k) payload)"
    by (rule slice_from) simp
  then show "py_slice payload (int k * 6) (int k * 6 + 6) = take 6 (drop (6 * k) payload)"
    by (simp add: mult.commute)
  show "length (take 6 (drop (6 * k) payload)) = 6"
    using assms by simp
qed

lemma decode_image_loop_chunks:
  assumes "length payload = 6 * n" "m \<le> n"
  shows "decode_image_loop (map (\<lambda>k. int k * 6) [m..<n]) payload img =
           Inr (img @ concat (map (\<lambda>k. chunk_samples (take 6 (drop (6 * k) payload))) [m..<n]))"
  using assms(2)
proof (induction "n - m" arbitrary: m img)
  case 0
  then show ?case by simp
next
  case (Suc d)
  then have mn: "m < n" and d: "d = n - Suc m" and le: "Suc m \<le> n" by simp_all
  have up: "[m..<n] = m # [Suc m..<n]"
    using mn by (simp add: upt_conv_Cons)
  show ?case
    unfolding up
    using chunk_of_payload [OF assms(1) mn] Suc.hyps(1) [OF d le]
    by (simp add: decode_image_body_six err_bind_def)
qed

lemma nth_concat_four:
  assumes "\<And>xs. xs \<in> set xss \<Longrightarrow> length xs = 4" "k < length xss" "r < 4"
  shows "concat xss ! (4 * k + r) = xss ! k ! r"
  using assms
proof (induction xss arbitrary: k)
  case Nil
  then show ?case by simp
next
  case (Cons xs xss)
  have l: "length xs = 4" using Cons.prems(1) by simp
  show ?case
  proof (cases k)
    case 0
    then show ?thesis using l Cons.prems(3) by (simp add: nth_append)
  next
    case (Suc k')
    have "concat xss ! (4 * k' + r) = xss ! k' ! r"
      using Cons.IH [of k'] Cons.prems Suc by simp
    moreover have "4 * k + r - 4 = 4 * k' + r" using Suc by simp
    ultimately show ?thesis using l Suc by (simp add: nth_append)
  qed
qed

lemma length_concat_four:
  assumes "\<And>xs. xs \<in> set xss \<Longrightarrow> length xs = 4"
  shows "length (concat xss) = 4 * length xss"
  using assms by (induction xss) simp_all

text \<open>
  C5. For every payload whose length is a multiple of 6, \<open>decode_image\<close> returns a list
  with exactly 4 samples for each chunk of 6 bytes, in the order of the chunks; every sample
  lies between 0 and 4095; the samples of chunk \<open>k\<close> are the fixed interleaving of its six
  bytes. In particular the chunk \<open>12 34 56 78 9a bc\<close> decodes to
  \<open>0x234, 0x781, 0xc56, 0x9ab\<close>.
\<close>

theorem decode_image_samples:
  assumes "length payload mod 6 = 0"
  shows "(\<exists>img. decode_image payload = Inr img \<and>
            length img = 4 * (length payload div 6) \<and>
            (\<forall>s \<in> set img. 0 \<le> s \<and> s \<le> 4095) \<and>
            (\<forall>k < length payload div 6.
               img ! (4 * k) = push_bit 8 (uint (payload ! (6 * k)) AND 0xf)
                                 + uint (payload ! (6 * k + 1)) \<and>
               img ! (4 * k + 1) = push_bit 4 (uint (payload ! (6 * k + 3)))
                                 + drop_bit 4 (uint (payload ! (6 * k))) \<and>
               img ! (4 * k + 2) = push_bit 8 (uint (payload ! (6 * k + 5)) AND 0xf)
                                 + uint (payload ! (6 * k + 2)) \<and>
               img ! (4 * k + 3) = push_bit 4 (uint (payload ! (6 * k + 4)))
                                 + drop_bit 4 (uint (payload ! (6 * k + 5))))) \<and>
         decode_image [0x12, 0x34, 0x56, 0x78, 0x9a, 0xbc] = Inr [0x234, 0x781, 0xc56, 0x9ab]"
proof -
  define n where "n = length payload div 6"
  have len: "length payload = 6 * n"
    using assms by (auto simp add: n_def)
  define chunks where
    "chunks = map (\<lambda>k. chunk_samples (take 6 (drop (6 * k) payload))) [0..<n]"
  define img where "img = concat chunks"
  have four: "\<And>xs. xs \<in> set chunks \<Longrightarrow> length xs = 4"
    by (auto simp add: chunks_def length_chunk_samples)
  have cn: "length chunks = n"
    by (simp add: chunks_def)
  have idx: "(length payload + 5) div 6 = n"
    using len by simp
  have dec: "decode_image payload = Inr img"
    using decode_image_loop_chunks [OF len, of 0 "[]"]
    by (simp add: decode_image_def range_step_six idx img_def chunks_def)
  have ln: "length img = 4 * n"
    unfolding img_def using length_concat_four [OF four] cn by simp
  have rng: "\<forall>s \<in> set img. 0 \<le> s \<and> s \<le> 4095"
    by (auto simp add: img_def chunks_def dest: chunk_samples_range)
  have pos: "img ! (4 * k + r) = chunk_samples (take 6 (drop (6 * k) payload)) ! r"
    if "k < n" "r < 4" for k r
    unfolding img_def using nth_concat_four [where xss = chunks and k = k and r = r] four that cn
    by (simp add: chunks_def)
  have byte: "take 6 (drop (6 * k) payload) ! j = payload ! (6 * k + j)"
    if "k < n" "j < 6" for k j
    using that len by simp
  have smp: "img ! (4 * k) = push_bit 8 (uint (payload ! (6 * k)) AND 0xf)
                                 + uint (payload ! (6 * k + 1)) \<and>
             img ! (4 * k + 1) = push_bit 4 (uint (payload ! (6 * k + 3)))
                                 + drop_bit 4 (uint (payload ! (6 * k))) \<and>
             img ! (4 * k + 2) = push_bit 8 (uint (payload ! (6 * k + 5)) AND 0xf)
                                 + uint (payload ! (6 * k + 2)) \<and>
             img ! (4 * k + 3) = push_bit 4 (uint (payload ! (6 * k + 4)))
                                 + drop_bit 4 (uint (payload ! (6 * k + 5)))"
    if k: "k < n" for k
    using pos [OF k, of 0] pos [OF k, of 1] pos [OF k, of 2] pos [OF k, of 3]
      byte [OF k, of 0] byte [OF k, of 1] byte [OF k, of 2] byte [OF k, of 3]
      byte [OF k, of 4] byte [OF k, of 5]
    by (simp add: chunk_samples_def)
  have lit: "decode_image [0x12, 0x34, 0x56, 0x78, 0x9a, 0xbc] = Inr [0x234, 0x781, 0xc56, 0x9ab]"
    using decode_image_loop_chunks [of "[0x12, 0x34, 0x56, 0x78, 0x9a, 0xbc]" 1 0 "[]"]
    by (simp add: decode_image_def range_step_six chunk_samples_def)
  show ?thesis
    using dec ln rng smp lit unfolding n_def [symmetric] by blast
qed

theorem decode_image_samples_witness:
  "length [0x12, 0x34, 0x56, 0x78, 0x9a, 0xbc, 0x00, 0x01, 0x02, 0x03, 0x04, 0xf5 :: byte] mod 6 = 0 \<and>
   (\<exists>img. decode_image [0x12, 0x34, 0x56, 0x78, 0x9a, 0xbc, 0x00, 0x01, 0x02, 0x03, 0x04, 0xf5]
            = Inr img \<and>
          length img = 8 \<and> (\<forall>s \<in> set img. 0 \<le> s \<and> s \<le> 4095) \<and>
          img ! 4 = 0x001 \<and> img ! 5 = 0x030 \<and> img ! 6 = 0x502 \<and> img ! 7 = 0x04f)"
proof -
  let ?p = "[0x12, 0x34, 0x56, 0x78, 0x9a, 0xbc, 0x00, 0x01, 0x02, 0x03, 0x04, 0xf5] :: bytes"
  have h: "length ?p mod 6 = 0" by simp
  from decode_image_samples [OF h] obtain img where
    d: "decode_image ?p = Inr img" and l: "length img = 4 * (length ?p div 6)"
    and r: "\<forall>s \<in> set img. 0 \<le> s \<and> s \<le> 4095"
    and s: "\<forall>k < length ?p div 6.
               img ! (4 * k) = push_bit 8 (uint (?p ! (6 * k)) AND 0xf)
                                 + uint (?p ! (6 * k + 1)) \<and>
               img ! (4 * k + 1) = push_bit 4 (uint (?p ! (6 * k + 3)))
                                 + drop_bit 4 (uint (?p ! (6 * k))) \<and>
               img ! (4 * k + 2) = push_bit 8 (uint (?p ! (6 * k + 5)) AND 0xf)
                                 + uint (?p ! (6 * k + 2)) \<and>
               img ! (4 * k + 3) = push_bit 4 (uint (?p ! (6 * k + 4)))
                                 + drop_bit 4 (uint (?p ! (6 * k + 5)))"
    by blast
  have "(1::nat) < length ?p div 6" by simp
  with s have "img ! (4 * 1) = push_bit 8 (uint (?p ! (6 * 1)) AND 0xf)
                                 + uint (?p ! (6 * 1 + 1)) \<and>
               img ! (4 * 1 + 1) = push_bit 4 (uint (?p ! (6 * 1 + 3)))
                                 + drop_bit 4 (uint (?p ! (6 * 1))) \<and>
               img ! (4 * 1 + 2) = push_bit 8 (uint (?p ! (6 * 1 + 5)) AND 0xf)
                                 + uint (?p ! (6 * 1 + 2)) \<and>
               img ! (4 * 1 + 3) = push_bit 4 (uint (?p ! (6 * 1 + 4)))
                                 + drop_bit 4 (uint (?p ! (6 * 1 + 5)))"
    by blast
  then have "img ! 4 = 0x001 \<and> img ! 5 = 0x030 \<and> img ! 6 = 0x502 \<and> img ! 7 = 0x04f"
    by (simp add: drop_bit_eq_div)
  moreover have "length img = 8" using l by simp
  ultimately show ?thesis using h d r by blast
qed

section \<open>The MCU state decoder\<close>

lemma unpack_H_short: "length buffer \<le> 1 \<Longrightarrow> unpack_H buffer = Inl StructError"
  by (cases buffer rule: list.exhaust) (auto simp add: unpack_H_def split: list.splits)

lemma decode_mcu_state_wake_up_slice:
  "unpack_H (py_slice payload 10 11) = Inl StructError"
proof -
  have "py_slice payload (int 10) (int 10 + 1) = take (nat 1) (drop 10 payload)"
    by (rule slice_from) simp
  then have "length (py_slice payload 10 11) \<le> 1"
    by simp
  then show ?thesis by (rule unpack_H_short)
qed

text \<open>
  Whatever the payload, \<open>decode_mcu_state\<close> raises: IndexError when the payload has
  fewer than 10 bytes, \<open>struct.error\<close> otherwise, since \<open>payload[10:11]\<close> holds at most
  one byte and the format \<open><H\<close> needs two.
\<close>

lemma decode_mcu_state_raises:
  "decode_mcu_state payload =
     (if length payload < 10 then Inl IndexError else Inl StructError)"
  by (simp add: decode_mcu_state_def decode_mcu_state_wake_up_slice item_nonneg err_bind_def)

text \<open>
  C6. \<open>decode_mcu_state\<close> is specified to return, for every payload of at least 14
  bytes, the 9-tuple of the MCU state, with the wake-up-to-POV time read from bytes 10 and
  11. The code does not: on a 16-byte MCU state the call raises \<open>struct.error\<close>.
\<close>

theorem decode_mcu_state_failing_input:
  "decode_mcu_state [0x04, 0x05, 0x20, 0x00, 0x00, 0x00, 0x00, 0x00,
                     0x00, 0x03, 0x10, 0x27, 0x01, 0x02, 0x00, 0x00] = Inl StructError"
  by (simp add: decode_mcu_state_raises)

section \<open>Writing sensor registers in batch mode\<close>

text \<open>
  In batch mode \<open>write_sensor_register\<close> never gets to the write: with value and address
  lists of the same length the loop header \<open>for i in length\<close> raises TypeError, and the
  device is left as it was.
\<close>

lemma write_sensor_register_batch_raises:
  "write_sensor_register (AddressList address) (ValueList value) dev =
     (Inl (if len value \<noteq> len address then ValueError ''Invalid value'' else TypeError), dev)"
  by (simp add: write_sensor_register_def io_bind_def io_of_def iter_int_def err_bind_def)

text \<open>
  C7. A batch call of \<open>write_sensor_register\<close> with address and value lists of the same
  length, every value of 2 bytes, is specified to build the request, write it and complete
  on a valid ack. The code does not: with one address and one 2-byte value, and the ack for
  \<open>WRITE_SENSOR_REGISTER\<close> ready to be read, the call raises TypeError, writes nothing and
  reads nothing.
\<close>

theorem write_sensor_register_batch_failing_input:
  "write_sensor_register (AddressList [0x0220]) (ValueList [[0x78, 0x0b]])
     \<lparr>rx = [[0xa0, 0x06, 0x00, 0xa6, 0xb0, 0x03, 0x00, 0x80, 0x01, 0x76]], tx = []\<rparr>
   = (Inl TypeError,
      \<lparr>rx = [[0xa0, 0x06, 0x00, 0xa6, 0xb0, 0x03, 0x00, 0x80, 0x01, 0x76]], tx = []\<rparr>)"
  by (simp add: write_sensor_register_batch_raises len_def)

section \<open>The exchange: write, ack, reply\<close>

lemma Device_write_result:
  "fst (Device_write payload dev) = Inr () \<and> rx (snd (Device_write payload dev)) = rx dev"
  by (simp add: Device_write_def Let_def)

lemma send_command_ok:
  assumes "length message + 4 < 65536" "0 \<le> command" "command \<le> 255"
  shows "\<exists>outer. send_command message command dev = Device_write outer dev"
proof -
  have m: "length message + 1 < 65536" using assms(1) by simp
  obtain inner where inner: "encode_message_protocol message command None True = Inr inner"
    and li: "length inner = length message + 4"
    using encode_message_protocol_frame [OF assms(2,3) m, of True] by simp
  have "length inner < 65536" using li assms(1) by simp
  then obtain outer where "encode_message_pack inner FLAGS_MESSAGE_PROTOCOL None = Inr outer"
    using encode_message_pack_frame [of FLAGS_MESSAGE_PROTOCOL inner]
    by (simp add: FLAGS_MESSAGE_PROTOCOL_def)
  then have "send_command message command dev = Device_write outer dev"
    using inner by (simp add: send_command_def io_bind_def io_of_def)
  then show ?thesis by blast
qed

lemma read_ack_ok:
  assumes "rx dev = raw # rest"
    and "check_message_pack raw FLAGS_MESSAGE_PROTOCOL = Inr inner"
    and "check_message_protocol inner COMMAND_ACK True = Inr ack"
    and "check_ack ack command = Inr has_no_config"
  shows "read_ack command dev = (Inr has_no_config, dev\<lparr>rx := rest\<rparr>)"
  using assms by (simp add: read_ack_def Device_read_def io_bind_def io_of_def)

lemma read_reply_ok:
  assumes "rx dev = raw # rest"
    and "check_message_pack raw FLAGS_MESSAGE_PROTOCOL = Inr inner"
    and "check_message_protocol inner command True = Inr message"
  shows "read_reply command dev = (Inr message, dev\<lparr>rx := rest\<rparr>)"
  using assms by (simp add: read_reply_def Device_read_def io_bind_def io_of_def)

lemma exchange_with_reply:
  assumes len: "length request + 4 < 65536" and cmd: "0 \<le> command" "command \<le> 255"
    and rx: "rx dev = raw_ack # raw_reply # rest"
    and a1: "check_message_pack raw_ack FLAGS_MESSAGE_PROTOCOL = Inr ack_inner"
    and a2: "check_message_protocol ack_inner COMMAND_ACK True = Inr ack"
    and a3: "check_ack ack command = Inr has_no_config"
    and r1: "check_message_pack raw_reply FLAGS_MESSAGE_PROTOCOL = Inr reply_inner"
    and r2: "check_message_protocol reply_inner command True = Inr message"
  shows "fst (io_bind (send_command request command) (\<lambda>_.
              io_bind (read_ack command) (\<lambda>_.
              io_bind (read_reply command) (\<lambda>reply. io_of (f reply)))) dev) = f message"
proof -
  obtain outer where s: "send_command request command dev = Device_write outer dev"
    using send_command_ok [OF len cmd] by blast
  obtain dev1 where w: "Device_write outer dev = (Inr (), dev1)" and rx1: "rx dev1 = rx dev"
    using Device_write_result [of outer dev] by (cases "Device_write outer dev") simp
  have a: "read_ack command dev1 = (Inr has_no_config, dev1\<lparr>rx := raw_reply # rest\<rparr>)"
    using read_ack_ok [OF _ a1 a2 a3, of dev1 "raw_reply # rest"] rx rx1 by simp
  have r: "read_reply command (dev1\<lparr>rx := raw_reply # rest\<rparr>)
             = (Inr message, dev1\<lparr>rx := rest\<rparr>)"
    using read_reply_ok [OF _ r1 r2, of "dev1\<lparr>rx := raw_reply # rest\<rparr>" rest] by simp
  show ?thesis
    by (simp add: io_bind_def s w a r io_of_def)
qed

lemma io_bind_io_of_Inr: "io_bind (io_of (Inr x)) g = g x"
  by (simp add: io_bind_def io_of_def fun_eq_iff)

lemma exchange_ack_only:
  assumes len: "length request + 4 < 65536" and cmd: "0 \<le> command" "command \<le> 255"
    and rx: "rx dev = raw_ack # rest"
    and a1: "check_message_pack raw_ack FLAGS_MESSAGE_PROTOCOL = Inr ack_inner"
    and a2: "check_message_protocol ack_inner COMMAND_ACK True = Inr ack"
    and a3: "check_ack ack command = Inr has_no_config"
  shows "fst (io_bind (send_command request command) (\<lambda>_.
              io_bind (read_ack command) (\<lambda>_. io_of (Inr ()))) dev) = Inr ()"
proof -
  obtain outer where s: "send_command request command dev = Device_write outer dev"
    using send_command_ok [OF len cmd] by blast
  obtain dev1 where w: "Device_write outer dev = (Inr (), dev1)" and rx1: "rx dev1 = rx dev"
    using Device_write_result [of outer dev] by (cases "Device_write outer dev") simp
  have a: "read_ack command dev1 = (Inr has_no_config, dev1\<lparr>rx := rest\<rparr>)"
    using read_ack_ok [OF _ a1 a2 a3, of dev1 rest] rx rx1 by simp
  show ?thesis
    by (simp add: io_bind_def s w a io_of_def)
qed

section \<open>Writing one sensor register\<close>

text \<open>
  The single-register branch of \<open>write_sensor_register\<close> does complete: with a 16-bit
  address, a value that fits the frame and a valid ack to read, the call returns.
\<close>

lemma write_sensor_register_single_ok:
  assumes "0 \<le> address" "address \<le> 0xffff" and lv: "length value + 7 < 65536"
    and rx: "rx dev = raw_ack # rest"
    and a1: "check_message_pack raw_ack FLAGS_MESSAGE_PROTOCOL = Inr ack_inner"
    and a2: "check_message_protocol ack_inner COMMAND_ACK True = Inr ack"
    and a3: "check_ack ack COMMAND_WRITE_SENSOR_REGISTER = Inr has_no_config"
  shows "fst (write_sensor_register (AddressInt address) (ValueBytes value) dev) = Inr ()"
proof -
  let ?request = "0x00 # word_of_int (address mod 256) # word_of_int (address div 256) # value"
  have q: "write_sensor_register_message (AddressInt address) (ValueBytes value) = Inr ?request"
    using assms(1,2) by (simp add: pack_H_def err_bind_def)
  have len: "length ?request + 4 < 65536" using lv by simp
  have cmd: "0 \<le> COMMAND_WRITE_SENSOR_REGISTER" "COMMAND_WRITE_SENSOR_REGISTER \<le> 255"
    by (simp_all add: COMMAND_WRITE_SENSOR_REGISTER_def)
  show ?thesis
    unfolding write_sensor_register_def q io_bind_io_of_Inr
    by (rule exchange_ack_only [OF len cmd rx a1 a2 a3])
qed

section \<open>Reading sensor registers\<close>

lemma read_sensor_register_loop_ok:
  assumes "\<forall>a \<in> set address. 0 \<le> a \<and> a \<le> 0xffff"
  shows "\<exists>message'. read_sensor_register_loop address message = Inr message' \<and>
           length message' = length message + 2 * length address"
  using assms
proof (induction address arbitrary: message)
  case Nil
  then show ?case by simp
next
  case (Cons a address)
  then have "pack_H a = Inr [word_of_int (a mod 256), word_of_int (a div 256)]"
    by (simp add: pack_H_def)
  moreover obtain message' where
    "read_sensor_register_loop address (message @ [word_of_int (a mod 256), word_of_int (a div 256)])
       = Inr message'"
    "length message' = length (message @ [word_of_int (a mod 256), word_of_int (a div 256)])
       + 2 * length address"
    using Cons.IH [of "message @ [word_of_int (a mod 256), word_of_int (a div 256)]"] Cons.prems
    by auto
  ultimately show ?case by (simp add: err_bind_def)
qed

lemma read_sensor_register_message_batch_ok:
  assumes "\<forall>a \<in> set address. 0 \<le> a \<and> a \<le> 0xffff"
  shows "\<exists>request. read_sensor_register_message (AddressList address) 2 = Inr request \<and>
           length request = 2 * length address + 2"
proof -
  obtain m where "read_sensor_register_loop address [0x01] = Inr m"
    "length m = length [0x01 :: byte] + 2 * length address"
    using read_sensor_register_loop_ok [OF assms, of "[0x01]"] by blast
  then show ?thesis
    by (simp add: err_bind_def pack_B_def)
qed

lemma range_step_two:
  "range_step (2 * int n) 2 = map (\<lambda>k. int k * 2) [0..<n]"
proof -
  have "nat ((2 * int n + 2 - 1) div 2) = n" by simp
  then show ?thesis by (simp add: range_step_def)
qed

lemma pair_of_message:
  assumes "2 * k + 2 \<le> length message"
  shows "py_slice message (int k * 2) (int k * 2 + 2) = [message ! (2 * k), message ! (2 * k + 1)]"
proof -
  have "py_slice message (int (2 * k)) (int (2 * k) + 2) = take (nat 2) (drop (2 * k) message)"
    by (rule slice_from) simp
  moreover have "take 2 (drop (2 * k) message) = [message ! (2 * k), message ! (2 * k + 1)]"
    using assms
    by (simp add: numeral_2_eq_2 take_Suc_conv_app_nth)
  ultimately show ?thesis by (simp add: mult.commute)
qed

lemma read_sensor_register_result_batch:
  "read_sensor_register_result (AddressList address) 2 message =
     (if length message = 2 * length address + 1
      then Inr (ValueList (map (\<lambda>k. [message ! (2 * k), message ! (2 * k + 1)])
                              [0..<length address]))
      else Inl (SystemError ''Invalid response length''))"
proof (cases "length message = 2 * length address + 1")
  case True
  then have l: "len message - 1 = 2 * int (length address)"
    by (simp add: len_def)
  have "map (\<lambda>i. py_slice message i (i + 2)) (range_step (2 * int (length address)) 2)
          = map (\<lambda>k. [message ! (2 * k), message ! (2 * k + 1)]) [0..<length address]"
    unfolding range_step_two using True by (simp add: pair_of_message)
  then show ?thesis
    using True l by (simp add: len_def)
next
  case False
  then have "len message - 1 \<noteq> len address * 2"
    by (simp add: len_def)
  then show ?thesis using False by simp
qed

lemma read_sensor_register_batch_result:
  assumes addr: "\<forall>a \<in> set address. 0 \<le> a \<and> a \<le> 0xffff" and n: "length address \<le> 32764"
    and rx: "rx dev = raw_ack # raw_reply # rest"
    and a1: "check_message_pack raw_ack FLAGS_MESSAGE_PROTOCOL = Inr ack_inner"
    and a2: "check_message_protocol ack_inner COMMAND_ACK True = Inr ack"
    and a3: "check_ack ack COMMAND_READ_SENSOR_REGISTER = Inr has_no_config"
    and r1: "check_message_pack raw_reply FLAGS_MESSAGE_PROTOCOL = Inr reply_inner"
    and r2: "check_message_protocol reply_inner COMMAND_READ_SENSOR_REGISTER True = Inr message"
  shows "fst (read_sensor_register (AddressList address) 2 dev) =
     (if length message = 2 * length address + 1
      then Inr (ValueList (map (\<lambda>k. [message ! (2 * k), message ! (2 * k + 1)])
                              [0..<length address]))
      else Inl (SystemError ''Invalid response length''))"
proof -
  obtain request where q: "read_sensor_register_message (AddressList address) 2 = Inr request"
    and lq: "length request = 2 * length address + 2"
    using read_sensor_register_message_batch_ok [OF addr] by blast
  have len: "length request + 4 < 65536" using lq n by simp
  have cmd: "0 \<le> COMMAND_READ_SENSOR_REGISTER" "COMMAND_READ_SENSOR_REGISTER \<le> 255"
    by (simp_all add: COMMAND_READ_SENSOR_REGISTER_def)
  have "fst (read_sensor_register (AddressList address) 2 dev)
          = read_sensor_register_result (AddressList address) 2 message"
    unfolding read_sensor_register_def q io_bind_io_of_Inr
    by (rule exchange_with_reply [OF len cmd rx a1 a2 a3 r1 r2])
  then show ?thesis
    by (simp only: read_sensor_register_result_batch)
qed

text \<open>
  The frames of a simulated device, checked layer by layer: the ack for
  \<open>READ_SENSOR_REGISTER\<close> and two replies to it, one carrying 2 bytes and one carrying 3.
\<close>

lemma ack_read_sensor_register_checks:
  "check_message_pack [0xa0, 0x06, 0x00, 0xa6, 0xb0, 0x03, 0x00, 0x82, 0x01, 0x74]
     FLAGS_MESSAGE_PROTOCOL = Inr [0xb0, 0x03, 0x00, 0x82, 0x01, 0x74]"
  "check_message_protocol [0xb0, 0x03, 0x00, 0x82, 0x01, 0x74] COMMAND_ACK True
     = Inr [0x82, 0x01]"
  "check_ack [0x82, 0x01] COMMAND_READ_SENSOR_REGISTER = Inr False"
proof -
  show "check_message_pack [0xa0, 0x06, 0x00, 0xa6, 0xb0, 0x03, 0x00, 0x82, 0x01, 0x74]
     FLAGS_MESSAGE_PROTOCOL = Inr [0xb0, 0x03, 0x00, 0x82, 0x01, 0x74]"
    by (simp add: check_message_pack_def decode_message_pack_Cons FLAGS_MESSAGE_PROTOCOL_def
          err_bind_def len_def)
  show "check_message_protocol [0xb0, 0x03, 0x00, 0x82, 0x01, 0x74] COMMAND_ACK True
     = Inr [0x82, 0x01]"
    using decode_message_protocol_Cons [of 2 "0x03" "0x00" "[0x82, 0x01, 0x74]" "0xb0" True]
    by (simp add: check_message_protocol_def COMMAND_ACK_def err_bind_def len_def py_sum_def)
  show "check_ack [0x82, 0x01] COMMAND_READ_SENSOR_REGISTER = Inr False"
    by (simp add: check_ack_def decode_ack_def item_nonneg err_bind_def
          COMMAND_READ_SENSOR_REGISTER_def)
qed

lemma reply_read_sensor_register_two_checks:
  "check_message_pack [0xa0, 0x06, 0x00, 0xa6, 0x82, 0x03, 0x00, 0x11, 0x22, 0xf2]
     FLAGS_MESSAGE_PROTOCOL = Inr [0x82, 0x03, 0x00, 0x11, 0x22, 0xf2]"
  "check_message_protocol [0x82, 0x03, 0x00, 0x11, 0x22, 0xf2] COMMAND_READ_SENSOR_REGISTER True
     = Inr [0x11, 0x22]"
proof -
  show "check_message_pack [0xa0, 0x06, 0x00, 0xa6, 0x82, 0x03, 0x00, 0x11, 0x22, 0xf2]
     FLAGS_MESSAGE_PROTOCOL = Inr [0x82, 0x03, 0x00, 0x11, 0x22, 0xf2]"
    by (simp add: check_message_pack_def decode_message_pack_Cons FLAGS_MESSAGE_PROTOCOL_def
          err_bind_def len_def)
  show "check_message_protocol [0x82, 0x03, 0x00, 0x11, 0x22, 0xf2]
          COMMAND_READ_SENSOR_REGISTER True = Inr [0x11, 0x22]"
    using decode_message_protocol_Cons [of 2 "0x03" "0x00" "[0x11, 0x22, 0xf2]" "0x82" True]
    by (simp add: check_message_protocol_def COMMAND_READ_SENSOR_REGISTER_def err_bind_def
          len_def py_sum_def)
qed

lemma reply_read_sensor_register_three_checks:
  "check_message_pack [0xa0, 0x07, 0x00, 0xa7, 0x82, 0x04, 0x00, 0x11, 0x22, 0x33, 0xbe]
     FLAGS_MESSAGE_PROTOCOL = Inr [0x82, 0x04, 0x00, 0x11, 0x22, 0x33, 0xbe]"
  "check_message_protocol [0x82, 0x04, 0x00, 0x11, 0x22, 0x33, 0xbe]
     COMMAND_READ_SENSOR_REGISTER True = Inr [0x11, 0x22, 0x33]"
proof -
  show "check_message_pack [0xa0, 0x07, 0x00, 0xa7, 0x82, 0x04, 0x00, 0x11, 0x22, 0x33, 0xbe]
     FLAGS_MESSAGE_PROTOCOL = Inr [0x82, 0x04, 0x00, 0x11, 0x22, 0x33, 0xbe]"
    by (simp add: check_message_pack_def decode_message_pack_Cons FLAGS_MESSAGE_PROTOCOL_def
          err_bind_def len_def)
  show "check_message_protocol [0x82, 0x04, 0x00, 0x11, 0x22, 0x33, 0xbe]
          COMMAND_READ_SENSOR_REGISTER True = Inr [0x11, 0x22, 0x33]"
    using decode_message_protocol_Cons [of 3 "0x04" "0x00" "[0x11, 0x22, 0x33, 0xbe]" "0x82" True]
    by (simp add: check_message_protocol_def COMMAND_READ_SENSOR_REGISTER_def err_bind_def
          len_def py_sum_def)
qed

text \<open>
  What both branches of \<open>read_sensor_register\<close> do with the reply to a request for one
  register of 2 bytes. The batch branch measures the reply by \<open>len(message) - 1\<close>: it
  refuses a reply of exactly 2 bytes and accepts one of 3 bytes, of which it returns the
  first two. The single branch measures it by \<open>len(message)\<close> and returns the reply of
  2 bytes as it is. The source does not say whether a batch reply carries a byte after the
  values.
\<close>

lemma read_sensor_register_batch_three_bytes:
  "fst (read_sensor_register (AddressList [0x0220]) 2
          \<lparr>rx = [[0xa0, 0x06, 0x00, 0xa6, 0xb0, 0x03, 0x00, 0x82, 0x01, 0x74],
                 [0xa0, 0x07, 0x00, 0xa7, 0x82, 0x04, 0x00, 0x11, 0x22, 0x33, 0xbe]],
           tx = []\<rparr>)
     = Inr (ValueList [[0x11, 0x22]])"
proof -
  have a: "\<forall>a \<in> set [0x0220 :: int]. 0 \<le> a \<and> a \<le> 0xffff" by simp
  have n: "length [0x0220 :: int] \<le> 32764" by simp
  have r: "rx \<lparr>rx = [[0xa0, 0x06, 0x00, 0xa6, 0xb0, 0x03, 0x00, 0x82, 0x01, 0x74],
                 [0xa0, 0x07, 0x00, 0xa7, 0x82, 0x04, 0x00, 0x11, 0x22, 0x33, 0xbe]],
           tx = []\<rparr>
         = [0xa0, 0x06, 0x00, 0xa6, 0xb0, 0x03, 0x00, 0x82, 0x01, 0x74] #
           [0xa0, 0x07, 0x00, 0xa7, 0x82, 0x04, 0x00, 0x11, 0x22, 0x33, 0xbe] # []"
    by simp
  show ?thesis
    using read_sensor_register_batch_result [OF a n r ack_read_sensor_register_checks
        reply_read_sensor_register_three_checks]
    by (simp add: numeral_2_eq_2)
qed

lemma read_sensor_register_batch_two_bytes:
  "fst (read_sensor_register (AddressList [0x0220]) 2
          \<lparr>rx = [[0xa0, 0x06, 0x00, 0xa6, 0xb0, 0x03, 0x00, 0x82, 0x01, 0x74],
                 [0xa0, 0x06, 0x00, 0xa6, 0x82, 0x03, 0x00, 0x11, 0x22, 0xf2]],
           tx = []\<rparr>)
     = Inl (SystemError ''Invalid response length'')"
proof -
  have a: "\<forall>a \<in> set [0x0220 :: int]. 0 \<le> a \<and> a \<le> 0xffff" by simp
  have n: "length [0x0220 :: int] \<le> 32764" by simp
  have r: "rx \<lparr>rx = [[0xa0, 0x06, 0x00, 0xa6, 0xb0, 0x03, 0x00, 0x82, 0x01, 0x74],
                 [0xa0, 0x06, 0x00, 0xa6, 0x82, 0x03, 0x00, 0x11, 0x22, 0xf2]],
           tx = []\<rparr>
         = [0xa0, 0x06, 0x00, 0xa6, 0xb0, 0x03, 0x00, 0x82, 0x01, 0x74] #
           [0xa0, 0x06, 0x00, 0xa6, 0x82, 0x03, 0x00, 0x11, 0x22, 0xf2] # []"
    by simp
  show ?thesis
    using read_sensor_register_batch_result [OF a n r ack_read_sensor_register_checks
        reply_read_sensor_register_two_checks]
    by simp
qed

lemma read_sensor_register_single_result:
  assumes "0 \<le> address" "address \<le> 0xffff" "0 \<le> length0" "length0 \<le> 0xff"
    and rx: "rx dev = raw_ack # raw_reply # rest"
    and a1: "check_message_pack raw_ack FLAGS_MESSAGE_PROTOCOL = Inr ack_inner"
    and a2: "check_message_protocol ack_inner COMMAND_ACK True = Inr ack"
    and a3: "check_ack ack COMMAND_READ_SENSOR_REGISTER = Inr has_no_config"
    and r1: "check_message_pack raw_reply FLAGS_MESSAGE_PROTOCOL = Inr reply_inner"
    and r2: "check_message_protocol reply_inner COMMAND_READ_SENSOR_REGISTER True = Inr message"
  shows "fst (read_sensor_register (AddressInt address) length0 dev) =
     (if len message \<noteq> length0 then Inl (SystemError ''Invalid response length'')
      else Inr (ValueBytes message))"
proof -
  let ?request = "[0x00, word_of_int (address mod 256), word_of_int (address div 256),
                   word_of_int length0] :: bytes"
  have q: "read_sensor_register_message (AddressInt address) length0 = Inr ?request"
    using assms(1-4) by (simp add: pack_H_def pack_B_def err_bind_def)
  have len: "length ?request + 4 < 65536" by simp
  have cmd: "0 \<le> COMMAND_READ_SENSOR_REGISTER" "COMMAND_READ_SENSOR_REGISTER \<le> 255"
    by (simp_all add: COMMAND_READ_SENSOR_REGISTER_def)
  have "fst (read_sensor_register (AddressInt address) length0 dev)
          = read_sensor_register_result (AddressInt address) length0 message"
    unfolding read_sensor_register_def q io_bind_io_of_Inr
    by (rule exchange_with_reply [OF len cmd rx a1 a2 a3 r1 r2])
  then show ?thesis by simp
qed

lemma read_sensor_register_single_two_bytes:
  "fst (read_sensor_register (AddressInt 0x0220) 2
          \<lparr>rx = [[0xa0, 0x06, 0x00, 0xa6, 0xb0, 0x03, 0x00, 0x82, 0x01, 0x74],
                 [0xa0, 0x06, 0x00, 0xa6, 0x82, 0x03, 0x00, 0x11, 0x22, 0xf2]],
           tx = []\<rparr>)
     = Inr (ValueBytes [0x11, 0x22])"
proof -
  have g: "(0::int) \<le> 0x0220" "(0x0220::int) \<le> 0xffff" "(0::int) \<le> 2" "(2::int) \<le> 0xff"
    by simp_all
  have r: "rx \<lparr>rx = [[0xa0, 0x06, 0x00, 0xa6, 0xb0, 0x03, 0x00, 0x82, 0x01, 0x74],
                 [0xa0, 0x06, 0x00, 0xa6, 0x82, 0x03, 0x00, 0x11, 0x22, 0xf2]],
           tx = []\<rparr>
         = [0xa0, 0x06, 0x00, 0xa6, 0xb0, 0x03, 0x00, 0x82, 0x01, 0x74] #
           [0xa0, 0x06, 0x00, 0xa6, 0x82, 0x03, 0x00, 0x11, 0x22, 0xf2] # []"
    by simp
  show ?thesis
    using read_sensor_register_single_result [OF g r ack_read_sensor_register_checks
        reply_read_sensor_register_two_checks]
    by (simp add: len_def)
qed

section \<open>Pre-shared key storage\<close>

lemma take_four_drop:
  assumes "k + 4 \<le> length xs"
  shows "take 4 (drop k xs) = [xs ! k, xs ! (k + 1), xs ! (k + 2), xs ! (k + 3)]"
proof (rule nth_equalityI)
  show "length (take 4 (drop k xs)) = length [xs ! k, xs ! (k + 1), xs ! (k + 2), xs ! (k + 3)]"
    using assms by simp
next
  fix i
  assume "i < length (take 4 (drop k xs))"
  then have "i < 4" by simp
  then consider "i = 0" | "i = 1" | "i = 2" | "i = 3" by linarith
  then show "take 4 (drop k xs) ! i = [xs ! k, xs ! (k + 1), xs ! (k + 2), xs ! (k + 3)] ! i"
    using assms by cases (simp_all add: numeral_2_eq_2 numeral_3_eq_3)
qed

lemma unpack_I_at:
  assumes "k + 4 \<le> length message"
  shows "unpack_I (py_slice message (int k) (int k + 4)) =
           Inr [uint (message ! k) + 256 * uint (message ! (k + 1))
                + 65536 * uint (message ! (k + 2)) + 16777216 * uint (message ! (k + 3))]"
proof -
  have "py_slice message (int k) (int k + 4) = take (nat 4) (drop k message)"
    by (rule slice_from) simp
  then have "py_slice message (int k) (int k + 4)
         = [message ! k, message ! (k + 1), message ! (k + 2), message ! (k + 3)]"
    using take_four_drop [OF assms] by simp
  then show ?thesis by (simp add: unpack_I_def)
qed

lemma preset_psk_request_ok:
  assumes "0 \<le> address" "address \<le> 0xffffffff" "0 \<le> length0" "length0 \<le> 0xffffffff"
  shows "\<exists>request. err_bind (pack_I address) (\<lambda>a. err_bind (pack_I length0) (\<lambda>l. Inr (a @ l @ data)))
            = Inr request \<and> length request = 8 + length data"
  using assms by (simp add: pack_I_def err_bind_def)

lemma preset_psk_read_r_exchange:
  assumes rng: "0 \<le> address" "address \<le> 0xffffffff" "0 \<le> length0" "length0 \<le> 0xffffffff"
    and rx: "rx dev = raw_ack # raw_reply # rest"
    and a1: "check_message_pack raw_ack FLAGS_MESSAGE_PROTOCOL = Inr ack_inner"
    and a2: "check_message_protocol ack_inner COMMAND_ACK True = Inr ack"
    and a3: "check_ack ack COMMAND_PRESET_PSK_READ_R = Inr has_no_config"
    and r1: "check_message_pack raw_reply FLAGS_MESSAGE_PROTOCOL = Inr reply_inner"
    and r2: "check_message_protocol reply_inner COMMAND_PRESET_PSK_READ_R True = Inr message"
  shows "fst (preset_psk_read_r address length0 dev) =
     (let length1 = len message
      in if length1 < 9 then Inl (SystemError ''Invalid response length'')
         else err_bind (unpack_I (py_slice message 5 9)) (\<lambda>t.
              err_bind (tuple_item0 t) (\<lambda>psk_length.
              if length1 - 9 < psk_length
              then Inl (SystemError ''Invalid response length'')
              else err_bind (item message 0) (\<lambda>m0.
                   if m0 \<noteq> 0x00 then Inl (SystemError ''Invalid response'')
                   else err_bind (unpack_I (py_slice message 1 5)) (\<lambda>t'.
                        err_bind (tuple_item0 t') (\<lambda>echo.
                        if echo \<noteq> address then Inl (SystemError ''Invalid response'')
                        else Inr (py_slice message 9 (9 + psk_length))))))))"
proof -
  obtain request where q: "err_bind (pack_I address) (\<lambda>a. err_bind (pack_I length0) (\<lambda>l. Inr (a @ l @ [])))
            = Inr request" and lq: "length request = 8 + length ([] :: bytes)"
    using preset_psk_request_ok [OF rng, of "[]"] by blast
  have len: "length request + 4 < 65536" using lq by simp
  have cmd: "0 \<le> COMMAND_PRESET_PSK_READ_R" "COMMAND_PRESET_PSK_READ_R \<le> 255"
    by (simp_all add: COMMAND_PRESET_PSK_READ_R_def)
  have q': "err_bind (pack_I address) (\<lambda>a. err_bind (pack_I length0) (\<lambda>l. Inr (a @ l)))
            = Inr request"
    using q by simp
  show ?thesis
    unfolding preset_psk_read_r_def q' io_bind_io_of_Inr
    by (rule exchange_with_reply [OF len cmd rx a1 a2 a3 r1 r2])
qed

lemma preset_psk_read_r_cases:
  assumes rng: "0 \<le> address" "address \<le> 0xffffffff" "0 \<le> length0" "length0 \<le> 0xffffffff"
    and rx: "rx dev = raw_ack # raw_reply # rest"
    and a1: "check_message_pack raw_ack FLAGS_MESSAGE_PROTOCOL = Inr ack_inner"
    and a2: "check_message_protocol ack_inner COMMAND_ACK True = Inr ack"
    and a3: "check_ack ack COMMAND_PRESET_PSK_READ_R = Inr has_no_config"
    and r1: "check_message_pack raw_reply FLAGS_MESSAGE_PROTOCOL = Inr reply_inner"
    and r2: "check_message_protocol reply_inner COMMAND_PRESET_PSK_READ_R True = Inr message"
    and psk: "psk_length = uint (message ! 5) + 256 * uint (message ! 6)
                + 65536 * uint (message ! 7) + 16777216 * uint (message ! 8)"
    and echo: "echo = uint (message ! 1) + 256 * uint (message ! 2)
                + 65536 * uint (message ! 3) + 16777216 * uint (message ! 4)"
  shows "fst (preset_psk_read_r address length0 dev) =
     (if length message < 9 then Inl (SystemError ''Invalid response length'')
      else if int (length message) - 9 < psk_length
           then Inl (SystemError ''Invalid response length'')
      else if message ! 0 \<noteq> 0x00 \<or> echo \<noteq> address then Inl (SystemError ''Invalid response'')
      else Inr (take (nat psk_length) (drop 9 message)))"
proof (cases "length message < 9")
  case True
  then show ?thesis
    unfolding preset_psk_read_r_exchange [OF rng rx a1 a2 a3 r1 r2]
    by (simp add: len_def)
next
  case False
  then have l9: "5 + 4 \<le> length message" and l5: "1 + 4 \<le> length message" by simp_all
  have u5: "unpack_I (py_slice message 5 9) = Inr [psk_length]"
    using unpack_I_at [OF l9] by (simp add: psk)
  have u1: "unpack_I (py_slice message 1 5) = Inr [echo]"
  proof -
    have n: "(1::nat) + 1 = 2" "(1::nat) + 2 = 3" "(1::nat) + 3 = 4" "int 1 = 1" "(1::int) + 4 = 5"
      by simp_all
    show ?thesis
      using unpack_I_at [OF l5] unfolding n echo .
  qed
  have i0: "item message 0 = Inr (uint (message ! 0))"
    using False item_nat [of message 0] by (cases message) simp_all
  have p0: "0 \<le> psk_length" unfolding psk by simp
  have s9: "py_slice message 9 (9 + psk_length) = take (nat psk_length) (drop 9 message)"
    using slice_from [OF p0, of message 9] by simp
  have z: "uint (message ! 0) \<noteq> 0 \<longleftrightarrow> message ! 0 \<noteq> 0"
    by (simp add: uint_0_iff)
  show ?thesis
    unfolding preset_psk_read_r_exchange [OF rng rx a1 a2 a3 r1 r2]
    using False by (simp add: len_def u5 u1 i0 s9 z err_bind_def tuple_item0_def)
qed

lemma ack_preset_psk_read_r_checks:
  "check_message_pack [0xa0, 0x06, 0x00, 0xa6, 0xb0, 0x03, 0x00, 0xe4, 0x01, 0x12]
     FLAGS_MESSAGE_PROTOCOL = Inr [0xb0, 0x03, 0x00, 0xe4, 0x01, 0x12]"
  "check_message_protocol [0xb0, 0x03, 0x00, 0xe4, 0x01, 0x12] COMMAND_ACK True
     = Inr [0xe4, 0x01]"
  "check_ack [0xe4, 0x01] COMMAND_PRESET_PSK_READ_R = Inr False"
proof -
  show "check_message_pack [0xa0, 0x06, 0x00, 0xa6, 0xb0, 0x03, 0x00, 0xe4, 0x01, 0x12]
     FLAGS_MESSAGE_PROTOCOL = Inr [0xb0, 0x03, 0x00, 0xe4, 0x01, 0x12]"
    by (simp add: check_message_pack_def decode_message_pack_Cons FLAGS_MESSAGE_PROTOCOL_def
          err_bind_def len_def)
  show "check_message_protocol [0xb0, 0x03, 0x00, 0xe4, 0x01, 0x12] COMMAND_ACK True
     = Inr [0xe4, 0x01]"
    using decode_message_protocol_Cons [of 2 "0x03" "0x00" "[0xe4, 0x01, 0x12]" "0xb0" True]
    by (simp add: check_message_protocol_def COMMAND_ACK_def err_bind_def len_def py_sum_def)
  show "check_ack [0xe4, 0x01] COMMAND_PRESET_PSK_READ_R = Inr False"
    by (simp add: check_ack_def decode_ack_def item_nonneg err_bind_def
          COMMAND_PRESET_PSK_READ_R_def)
qed

lemma reply_preset_psk_read_r_checks:
  "check_message_pack [0xa0, 0x0d, 0x00, 0xad, 0xe4, 0x0a, 0x00, 0x00, 0x02, 0xbb, 0x00,
                       0x00, 0x00, 0x00, 0x00, 0x00, 0xff]
     FLAGS_MESSAGE_PROTOCOL
     = Inr [0xe4, 0x0a, 0x00, 0x00, 0x02, 0xbb, 0x00, 0x00, 0x00, 0x00, 0x00, 0x00, 0xff]"
  "check_message_protocol
     [0xe4, 0x0a, 0x00, 0x00, 0x02, 0xbb, 0x00, 0x00, 0x00, 0x00, 0x00, 0x00, 0xff]
     COMMAND_PRESET_PSK_READ_R True
     = Inr [0x00, 0x02, 0xbb, 0x00, 0x00, 0x00, 0x00, 0x00, 0x00]"
proof -
  show "check_message_pack [0xa0, 0x0d, 0x00, 0xad, 0xe4, 0x0a, 0x00, 0x00, 0x02, 0xbb, 0x00,
                       0x00, 0x00, 0x00, 0x00, 0x00, 0xff]
     FLAGS_MESSAGE_PROTOCOL
     = Inr [0xe4, 0x0a, 0x00, 0x00, 0x02, 0xbb, 0x00, 0x00, 0x00, 0x00, 0x00, 0x00, 0xff]"
    by (simp add: check_message_pack_def decode_message_pack_Cons FLAGS_MESSAGE_PROTOCOL_def
          err_bind_def len_def)
  show "check_message_protocol
     [0xe4, 0x0a, 0x00, 0x00, 0x02, 0xbb, 0x00, 0x00, 0x00, 0x00, 0x00, 0x00, 0xff]
     COMMAND_PRESET_PSK_READ_R True
     = Inr [0x00, 0x02, 0xbb, 0x00, 0x00, 0x00, 0x00, 0x00, 0x00]"
    using decode_message_protocol_Cons [of 9 "0x0a" "0x00"
        "[0x00, 0x02, 0xbb, 0x00, 0x00, 0x00, 0x00, 0x00, 0x00, 0xff]" "0xe4" True]
    by (simp add: check_message_protocol_def COMMAND_PRESET_PSK_READ_R_def err_bind_def
          len_def py_sum_def)
qed

text \<open>
  C9. With address and length arguments that fit in 32 bits, after a valid ack and a valid
  data response whose message-protocol data is \<open>message\<close>: \<open>preset_psk_read_r\<close> raises
  SystemError "Invalid response length" when \<open>message\<close> has fewer than 9 bytes or fewer
  than \<open>psk_length\<close> bytes after offset 9 (\<open>psk_length\<close> is the little-endian value of
  bytes 5 to 8); it raises SystemError "Invalid response" when byte 0 is not \<open>0x00\<close> or
  bytes 1 to 4 do not echo the address; otherwise it returns bytes 9 to \<open>9 + psk_length\<close>.
  In particular a response of exactly 9 bytes with byte 0 equal to \<open>0x00\<close>, the address
  echoed and psk length 0 gives the empty byte string.
\<close>

theorem preset_psk_read_r_returns_psk:
  assumes "0 \<le> address" "address \<le> 0xffffffff" "0 \<le> length0" "length0 \<le> 0xffffffff"
    and "rx dev = raw_ack # raw_reply # rest"
    and "check_message_pack raw_ack FLAGS_MESSAGE_PROTOCOL = Inr ack_inner"
    and "check_message_protocol ack_inner COMMAND_ACK True = Inr ack"
    and "check_ack ack COMMAND_PRESET_PSK_READ_R = Inr has_no_config"
    and "check_message_pack raw_reply FLAGS_MESSAGE_PROTOCOL = Inr reply_inner"
    and "check_message_protocol reply_inner COMMAND_PRESET_PSK_READ_R True = Inr message"
    and "psk_length = uint (message ! 5) + 256 * uint (message ! 6)
                + 65536 * uint (message ! 7) + 16777216 * uint (message ! 8)"
    and "echo = uint (message ! 1) + 256 * uint (message ! 2)
                + 65536 * uint (message ! 3) + 16777216 * uint (message ! 4)"
  shows "fst (preset_psk_read_r address length0 dev) =
           (if length message < 9 then Inl (SystemError ''Invalid response length'')
            else if int (length message) - 9 < psk_length
                 then Inl (SystemError ''Invalid response length'')
            else if message ! 0 \<noteq> 0x00 \<or> echo \<noteq> address
                 then Inl (SystemError ''Invalid response'')
            else Inr (take (nat psk_length) (drop 9 message))) \<and>
         (length message = 9 \<and> message ! 0 = 0x00 \<and> echo = address \<and> psk_length = 0 \<longrightarrow>
            fst (preset_psk_read_r address length0 dev) = Inr [])"
  using preset_psk_read_r_cases [OF assms] by simp

theorem preset_psk_read_r_returns_psk_witness:
  "fst (preset_psk_read_r 0xbb02 0
          \<lparr>rx = [[0xa0, 0x06, 0x00, 0xa6, 0xb0, 0x03, 0x00, 0xe4, 0x01, 0x12],
                 [0xa0, 0x0d, 0x00, 0xad, 0xe4, 0x0a, 0x00, 0x00, 0x02, 0xbb, 0x00,
                  0x00, 0x00, 0x00, 0x00, 0x00, 0xff]],
           tx = []\<rparr>)
     = Inr []"
proof -
  let ?message = "[0x00, 0x02, 0xbb, 0x00, 0x00, 0x00, 0x00, 0x00, 0x00] :: bytes"
  have g: "(0::int) \<le> 0xbb02" "(0xbb02::int) \<le> 0xffffffff" "(0::int) \<le> 0"
    "(0::int) \<le> 0xffffffff"
    by simp_all
  have r: "rx \<lparr>rx = [[0xa0, 0x06, 0x00, 0xa6, 0xb0, 0x03, 0x00, 0xe4, 0x01, 0x12],
                 [0xa0, 0x0d, 0x00, 0xad, 0xe4, 0x0a, 0x00, 0x00, 0x02, 0xbb, 0x00,
                  0x00, 0x00, 0x00, 0x00, 0x00, 0xff]],
           tx = []\<rparr>
         = [0xa0, 0x06, 0x00, 0xa6, 0xb0, 0x03, 0x00, 0xe4, 0x01, 0x12] #
           [0xa0, 0x0d, 0x00, 0xad, 0xe4, 0x0a, 0x00, 0x00, 0x02, 0xbb, 0x00,
            0x00, 0x00, 0x00, 0x00, 0x00, 0xff] # []"
    by simp
  have p: "(0::int) = uint (?message ! 5) + 256 * uint (?message ! 6)
                + 65536 * uint (?message ! 7) + 16777216 * uint (?message ! 8)"
    by simp
  have e: "(0xbb02::int) = uint (?message ! 1) + 256 * uint (?message ! 2)
                + 65536 * uint (?message ! 3) + 16777216 * uint (?message ! 4)"
    by simp
  show ?thesis
    using preset_psk_read_r_returns_psk [OF g r ack_preset_psk_read_r_checks
        reply_preset_psk_read_r_checks p e]
    by simp
qed

lemma preset_psk_write_r_exchange:
  assumes rng: "0 \<le> address" "address \<le> 0xffffffff" "0 \<le> length0" "length0 \<le> 0xffffffff"
    and ld: "length data + 12 < 65536"
    and rx: "rx dev = raw_ack # raw_reply # rest"
    and a1: "check_message_pack raw_ack FLAGS_MESSAGE_PROTOCOL = Inr ack_inner"
    and a2: "check_message_protocol ack_inner COMMAND_ACK True = Inr ack"
    and a3: "check_ack ack COMMAND_PRESET_PSK_WRITE_R = Inr has_no_config"
    and r1: "check_message_pack raw_reply FLAGS_MESSAGE_PROTOCOL = Inr reply_inner"
    and r2: "check_message_protocol reply_inner COMMAND_PRESET_PSK_WRITE_R True = Inr message"
  shows "fst (preset_psk_write_r address length0 data dev) =
     (if len message > 2 then Inl (SystemError ''Invalid response length'')
      else err_bind (item message 0) (\<lambda>m0.
           if m0 \<noteq> 0x00 then Inl (SystemError ''Invalid response'')
           else Inr ()))"
proof -
  obtain request where q: "err_bind (pack_I address) (\<lambda>a. err_bind (pack_I length0) (\<lambda>l. Inr (a @ l @ data)))
            = Inr request" and lq: "length request = 8 + length data"
    using preset_psk_request_ok [OF rng, of data] by blast
  have len: "length request + 4 < 65536" using lq ld by simp
  have cmd: "0 \<le> COMMAND_PRESET_PSK_WRITE_R" "COMMAND_PRESET_PSK_WRITE_R \<le> 255"
    by (simp_all add: COMMAND_PRESET_PSK_WRITE_R_def)
  show ?thesis
    unfolding preset_psk_write_r_def q io_bind_io_of_Inr
    by (rule exchange_with_reply [OF len cmd rx a1 a2 a3 r1 r2])
qed

lemma ack_preset_psk_write_r_checks:
  "check_message_pack [0xa0, 0x06, 0x00, 0xa6, 0xb0, 0x03, 0x00, 0xe0, 0x01, 0x16]
     FLAGS_MESSAGE_PROTOCOL = Inr [0xb0, 0x03, 0x00, 0xe0, 0x01, 0x16]"
  "check_message_protocol [0xb0, 0x03, 0x00, 0xe0, 0x01, 0x16] COMMAND_ACK True
     = Inr [0xe0, 0x01]"
  "check_ack [0xe0, 0x01] COMMAND_PRESET_PSK_WRITE_R = Inr False"
proof -
  show "check_message_pack [0xa0, 0x06, 0x00, 0xa6, 0xb0, 0x03, 0x00, 0xe0, 0x01, 0x16]
     FLAGS_MESSAGE_PROTOCOL = Inr [0xb0, 0x03, 0x00, 0xe0, 0x01, 0x16]"
    by (simp add: check_message_pack_def decode_message_pack_Cons FLAGS_MESSAGE_PROTOCOL_def
          err_bind_def len_def)
  show "check_message_protocol [0xb0, 0x03, 0x00, 0xe0, 0x01, 0x16] COMMAND_ACK True
     = Inr [0xe0, 0x01]"
    using decode_message_protocol_Cons [of 2 "0x03" "0x00" "[0xe0, 0x01, 0x16]" "0xb0" True]
    by (simp add: check_message_protocol_def COMMAND_ACK_def err_bind_def len_def py_sum_def)
  show "check_ack [0xe0, 0x01] COMMAND_PRESET_PSK_WRITE_R = Inr False"
    by (simp add: check_ack_def decode_ack_def item_nonneg err_bind_def
          COMMAND_PRESET_PSK_WRITE_R_def)
qed

lemma reply_preset_psk_write_r_empty_checks:
  "check_message_pack [0xa0, 0x04, 0x00, 0xa4, 0xe0, 0x01, 0x00, 0xc9]
     FLAGS_MESSAGE_PROTOCOL = Inr [0xe0, 0x01, 0x00, 0xc9]"
  "check_message_protocol [0xe0, 0x01, 0x00, 0xc9] COMMAND_PRESET_PSK_WRITE_R True = Inr []"
proof -
  show "check_message_pack [0xa0, 0x04, 0x00, 0xa4, 0xe0, 0x01, 0x00, 0xc9]
     FLAGS_MESSAGE_PROTOCOL = Inr [0xe0, 0x01, 0x00, 0xc9]"
    by (simp add: check_message_pack_def decode_message_pack_Cons FLAGS_MESSAGE_PROTOCOL_def
          err_bind_def len_def)
  show "check_message_protocol [0xe0, 0x01, 0x00, 0xc9] COMMAND_PRESET_PSK_WRITE_R True
          = Inr []"
    using decode_message_protocol_Cons [of 0 "0x01" "0x00" "[0xc9]" "0xe0" True]
    by (simp add: check_message_protocol_def COMMAND_PRESET_PSK_WRITE_R_def err_bind_def
          len_def py_sum_def)
qed

text \<open>
  C10. In \<open>preset_psk_write_r\<close>, when the valid ack is followed by a valid data response
  whose message-protocol data is empty, the guard \<open>len(message) > 2\<close> does not fire, the
  read of \<open>message[0]\<close> is out of range, and the call ends with IndexError: it neither
  returns nor raises the SystemError of an invalid response.
\<close>

theorem preset_psk_write_r_empty_reply:
  assumes "0 \<le> address" "address \<le> 0xffffffff" "0 \<le> length0" "length0 \<le> 0xffffffff"
    and "length data + 12 < 65536"
    and "rx dev = raw_ack # raw_reply # rest"
    and "check_message_pack raw_ack FLAGS_MESSAGE_PROTOCOL = Inr ack_inner"
    and "check_message_protocol ack_inner COMMAND_ACK True = Inr ack"
    and "check_ack ack COMMAND_PRESET_PSK_WRITE_R = Inr has_no_config"
    and "check_message_pack raw_reply FLAGS_MESSAGE_PROTOCOL = Inr reply_inner"
    and "check_message_protocol reply_inner COMMAND_PRESET_PSK_WRITE_R True = Inr []"
  shows "\<not> len ([] :: bytes) > 2 \<and> item [] 0 = Inl IndexError \<and>
         fst (preset_psk_write_r address length0 data dev) = Inl IndexError"
  using preset_psk_write_r_exchange [OF assms]
  by (simp add: len_def item_nonneg err_bind_def)

theorem preset_psk_write_r_empty_reply_witness:
  "fst (preset_psk_write_r 0xbb02 0x02 [0x5a, 0xa5]
          \<lparr>rx = [[0xa0, 0x06, 0x00, 0xa6, 0xb0, 0x03, 0x00, 0xe0, 0x01, 0x16],
                 [0xa0, 0x04, 0x00, 0xa4, 0xe0, 0x01, 0x00, 0xc9]],
           tx = []\<rparr>)
     = Inl IndexError"
proof -
  have g: "(0::int) \<le> 0xbb02" "(0xbb02::int) \<le> 0xffffffff" "(0::int) \<le> 0x02"
    "(0x02::int) \<le> 0xffffffff"
    by simp_all
  have d: "length [0x5a, 0xa5 :: byte] + 12 < 65536" by simp
  have r: "rx \<lparr>rx = [[0xa0, 0x06, 0x00, 0xa6, 0xb0, 0x03, 0x00, 0xe0, 0x01, 0x16],
                 [0xa0, 0x04, 0x00, 0xa4, 0xe0, 0x01, 0x00, 0xc9]],
           tx = []\<rparr>
         = [0xa0, 0x06, 0x00, 0xa6, 0xb0, 0x03, 0x00, 0xe0, 0x01, 0x16] #
           [0xa0, 0x04, 0x00, 0xa4, 0xe0, 0x01, 0x00, 0xc9] # []"
    by simp
  show ?thesis
    using preset_psk_write_r_empty_reply [OF g d r ack_preset_psk_write_r_checks
        reply_preset_psk_write_r_empty_checks]
    by simp
qed

end
